theory Spec2Isabelle
  imports Complex_Main "HOL-Library.AList"
begin

section \<open>Strings, character classes and the regular expressions of the script\<close>

text \<open>
  A Python \<open>str\<close> is modelled as a HOL \<open>string\<close>; a \<open>char\<close> stands for the code point
  of the same number (0 to 255). The character classes below are the ones Python 3's
  \<open>re\<close> module and \<open>str.strip\<close> use for \<open>str\<close> patterns, restricted to these code points.
\<close>

definition code :: "char \<Rightarrow> nat" where
  "code c = of_char c"

definition is_ascii :: "char \<Rightarrow> bool" where
  "is_ascii c = (code c < 128)"

text \<open>\<open>\s\<close> and \<open>str.isspace\<close>: TAB to CR, FS to US, space, NEL and NBSP.\<close>

definition is_space :: "char \<Rightarrow> bool" where
  "is_space c = (let n = code c in
     (9 \<le> n \<and> n \<le> 13) \<or> (28 \<le> n \<and> n \<le> 32) \<or> n = 133 \<or> n = 160)"

text \<open>\<open>\d\<close>: the decimal digits (category Nd), which below 256 are \<open>0\<close> to \<open>9\<close> only.\<close>

definition is_digit :: "char \<Rightarrow> bool" where
  "is_digit c = (let n = code c in 48 \<le> n \<and> n \<le> 57)"

text \<open>\<open>\w\<close>: alphanumeric (\<open>str.isalnum\<close>) or underscore.\<close>

definition is_word :: "char \<Rightarrow> bool" where
  "is_word c = (let n = code c in
     (48 \<le> n \<and> n \<le> 57) \<or> (65 \<le> n \<and> n \<le> 90) \<or> n = 95 \<or> (97 \<le> n \<and> n \<le> 122) \<or>
     n = 170 \<or> n = 178 \<or> n = 179 \<or> n = 181 \<or> n = 185 \<or> n = 186 \<or>
     (188 \<le> n \<and> n \<le> 190) \<or> (192 \<le> n \<and> n \<le> 214) \<or> (216 \<le> n \<and> n \<le> 246) \<or>
     (248 \<le> n \<and> n \<le> 255))"

text \<open>
  Case folding as \<open>re.I\<close> needs it here: the patterns' letters are ASCII, and below 256 only
  the ASCII capital of a letter folds to it.
\<close>

definition lower :: "char \<Rightarrow> char" where
  "lower c = (let n = code c in if 65 \<le> n \<and> n \<le> 90 then char_of (n + 32) else c)"

text \<open>\<open>ci_prefix kw s\<close>: the lower-case literal \<open>kw\<close> matches at the start of \<open>s\<close>, ignoring case.\<close>

fun ci_prefix :: "string \<Rightarrow> string \<Rightarrow> bool" where
  "ci_prefix [] s = True"
| "ci_prefix (k # ks) [] = False"
| "ci_prefix (k # ks) (c # cs) = (lower c = k \<and> ci_prefix ks cs)"

text \<open>\<open>str.strip()\<close> with no argument: whitespace removed at both ends.\<close>

definition strip :: "string \<Rightarrow> string" where
  "strip s = rev (dropWhile is_space (rev (dropWhile is_space s)))"

text \<open>
  \<open>re.sub(pattern, repl, s)\<close> for a pattern that never matches the empty string. The
  matcher \<open>m\<close> is given whether the character before the current position is a word
  character (for \<open>\b\<close>) and the rest of the string, and returns the length of the match
  that starts here, if there is one. A match is replaced by \<open>repl\<close> and the scan goes on
  behind it; otherwise the character is kept and the scan moves one character on.
\<close>

fun re_sub :: "(bool \<Rightarrow> string \<Rightarrow> nat option) \<Rightarrow> string \<Rightarrow> bool \<Rightarrow> string \<Rightarrow> string" where
  "re_sub m repl pw [] = []"
| "re_sub m repl pw (c # cs) =
     (case m pw (c # cs) of
        None \<Rightarrow> c # re_sub m repl (is_word c) cs
      | Some 0 \<Rightarrow> c # re_sub m repl (is_word c) cs
      | Some (Suc n) \<Rightarrow>
          if n \<le> length cs
          then repl @ re_sub m repl (is_word ((c # cs) ! n)) (drop n cs)
          else c # re_sub m repl (is_word c) cs)"

text \<open>\<open>\bul\.?\<close> with \<open>re.I\<close>: \<open>\b\<close> holds before \<open>u\<close> when the previous character is no word
  character; the dot is taken when it is there.\<close>

definition m_ul :: "bool \<Rightarrow> string \<Rightarrow> nat option" where
  "m_ul pw s =
     (if \<not> pw \<and> ci_prefix ''ul'' s
      then Some (case drop 2 s of [] \<Rightarrow> 2 | c # _ \<Rightarrow> if c = CHR ''.'' then 3 else 2)
      else None)"

text \<open>
  \<open>\bKW\.?\s*\S+\<close> with \<open>re.I\<close>, for the literals \<open>lok\<close> and \<open>paw\<close>. After the literal the
  greedy match takes the dot, all whitespace and the run of non-whitespace behind it.
  When a dot was taken and no non-whitespace follows the whitespace, the matcher
  backtracks: \<open>\.?\<close> matches nothing, \<open>\s*\<close> matches nothing and \<open>\S+\<close> takes the run that
  starts with the dot.
\<close>

definition m_kw :: "string \<Rightarrow> bool \<Rightarrow> string \<Rightarrow> nat option" where
  "m_kw kw pw s =
     (if \<not> pw \<and> ci_prefix kw s then
        (let r = drop (length kw) s;
             tail = (\<lambda>t. let ws = takeWhile is_space t;
                             ns = takeWhile (\<lambda>c. \<not> is_space c) (dropWhile is_space t)
                         in if ns = [] then None else Some (length ws + length ns))
         in case r of
              [] \<Rightarrow> None
            | c # r' \<Rightarrow>
                if c = CHR ''.'' then
                  (case tail r' of
                     Some n \<Rightarrow> Some (length kw + 1 + n)
                   | None \<Rightarrow> Some (length kw + length (takeWhile (\<lambda>c. \<not> is_space c) r)))
                else (case tail r of Some n \<Rightarrow> Some (length kw + n) | None \<Rightarrow> None))
      else None)"

text \<open>\<open>\s+\<close>: a maximal run of whitespace.\<close>

definition m_ws :: "bool \<Rightarrow> string \<Rightarrow> nat option" where
  "m_ws pw s = (let n = length (takeWhile is_space s) in if n = 0 then None else Some n)"

text \<open>
  \<open>\s+\d+.*$\<close>: whitespace, then a digit, then the rest of the line; \<open>.\<close> does not match a
  newline, and \<open>$\<close> matches at the end of the string or before a newline that ends it.
\<close>

definition m_house :: "bool \<Rightarrow> string \<Rightarrow> nat option" where
  "m_house pw s =
     (let ws = takeWhile is_space s; r = dropWhile is_space s in
      if ws = [] then None
      else case r of
             [] \<Rightarrow> None
           | d # _ \<Rightarrow>
               if \<not> is_digit d then None
               else (let line = takeWhile (\<lambda>c. c \<noteq> CHR 0x0A) r;
                         rest = dropWhile (\<lambda>c. c \<noteq> CHR 0x0A) r
                     in if rest = [] \<or> rest = [CHR 0x0A]
                        then Some (length ws + length line) else None))"

text \<open>
  \<open>unidecode\<close> (a library): ASCII characters are kept, and every other character is
  replaced by its entry in the library's transliteration table, which is a parameter.
\<close>

definition unidecode :: "(char \<Rightarrow> string) \<Rightarrow> string \<Rightarrow> string" where
  "unidecode tbl s = concat (map (\<lambda>c. if is_ascii c then [c] else tbl c) s)"

definition normalize_address :: "(char \<Rightarrow> string) \<Rightarrow> string \<Rightarrow> string" where
  "normalize_address tbl addr =
     (let a = re_sub m_ul [] False (strip addr);
          a = re_sub (m_kw ''lok'') [] False a;
          a = re_sub (m_kw ''paw'') [] False a;
          a = re_sub m_ws '' '' False a
      in strip (unidecode tbl a))"

section \<open>Data model\<close>

text \<open>
  A Python float is either NaN, the marker pandas uses for a missing value, or a finite
  number. Coordinates are only stored, compared with NaN and passed on; no arithmetic is
  done on them. An equation \<open>x = NaN\<close> says that \<open>x\<close> is NaN, as \<open>pd.isna\<close> does, which is
  \<open>isna\<close> here; it is not Python's \<open>==\<close>, under which NaN is equal to nothing, itself
  included. Python's \<open>==\<close> on floats is \<open>py_eq\<close>.
\<close>

datatype pyfloat = NaN | Fin real

definition isna :: "pyfloat \<Rightarrow> bool" where
  "isna x = (x = NaN)"

fun py_eq :: "pyfloat \<Rightarrow> pyfloat \<Rightarrow> bool" where
  "py_eq (Fin a) (Fin b) = (a = b)"
| "py_eq x y = False"

text \<open>The result of a successful lookup (geopy's \<open>Location\<close>).\<close>

record location =
  latitude :: pyfloat
  longitude :: pyfloat

datatype provider = Nominatim | ArcGIS

text \<open>One call of a rate-limited geocoder: the provider, the query, and what came back.\<close>

type_synonym call = "provider \<times> string \<times> location option"

text \<open>
  A cell of a dataframe, and a key of the cache dict: a Python \<open>str\<close>, or a value that is
  no \<open>str\<close> (a number, a boolean, a date, a missing marker). Two values of type \<open>'v\<close> are
  equal when Python takes them for the same dict key.
\<close>

datatype 'v key = Text string | Value 'v

text \<open>
  A row of the spreadsheet, with its cells in the three columns the script reads; \<open>lat\<close>
  and \<open>lon\<close> mean something only when the dataframe has these columns. \<open>columns\<close> are the
  names of the columns the dataframe has.
\<close>

record 'v row =
  adres_punktu :: "'v key"
  rodzaj :: "'v key"
  nazwa_punktu :: "'v key"
  lat :: pyfloat
  lon :: pyfloat

record 'v dataframe =
  columns :: "string list"
  rows :: "'v row list"

text \<open>
  The three columns the script reads by name, the cell of a row in one of them, and the
  name of the column in the spreadsheet.
\<close>

datatype text_column = Adres_punktu | Rodzaj | Nazwa_punktu

fun cell :: "text_column \<Rightarrow> 'v row \<Rightarrow> 'v key" where
  "cell Adres_punktu r = adres_punktu r"
| "cell Rodzaj r = rodzaj r"
| "cell Nazwa_punktu r = nazwa_punktu r"

fun column_name :: "text_column \<Rightarrow> string" where
  "column_name Adres_punktu = ''Adres punktu''"
| "column_name Rodzaj = ''Rodzaj''"
| "column_name Nazwa_punktu = ''Nazwa punktu''"

text \<open>
  A row of the cache file: the text of its address field, its coordinates, and its
  timestamp.
\<close>

record csv_row =
  csv_address :: string
  csv_lat :: pyfloat
  csv_lon :: pyfloat
  csv_timestamp_iso :: string

text \<open>The in-memory cache: a Python dict, which keeps its keys in insertion order.\<close>

type_synonym 'v cache = "('v key \<times> (pyfloat \<times> pyfloat)) list"

text \<open>A point row of the GeoDataFrame, and a row of the spatial join.\<close>

record 'v geo_row =
  src :: "'v row"
  geometry :: "pyfloat \<times> pyfloat"

record 'v joined_row =
  pt :: "'v geo_row"
  osiedle :: "string option"

text \<open>
  The saved map: where it is centred, the points of the heat layer, and the elements added
  to the page's HTML, in order.
\<close>

record page =
  start :: "pyfloat \<times> pyfloat"
  heat :: "(pyfloat \<times> pyfloat) list"
  html :: "string list"

text \<open>
  What a file holds: a CSV text with a header line and these rows; the text that
  \<open>to_csv\<close> writes for a dataframe with no rows and no columns, which \<open>read_csv\<close> cannot
  parse; or a saved map.
\<close>

datatype file_content = CacheCsv "csv_row list" | EmptyCsv | HtmlPage page

datatype io_event = Read string | Write string

text \<open>
  The exceptions: of \<open>read_csv\<close> on a file it cannot parse, of a column that is not there,
  of \<open>strip\<close> on a value that is no \<open>str\<close>, of Jinja2 on a text that is no template, and
  any other exception of a library call.
\<close>

datatype error =
  EmptyDataError | ParserError | KeyError | AttributeError | TemplateSyntaxError | OtherError

text \<open>
  The state the script works on: the outside world the geocoding services and the clock
  depend on, the log of geocoder calls, the files, and the log of file accesses. A function
  that can raise returns \<open>Some\<close> of the error, or \<open>None\<close> when it returns, together with
  the state it has reached.
\<close>

record 'w sys =
  world :: 'w
  calls :: "call list"
  files :: "string \<Rightarrow> file_content option"
  io :: "io_event list"

text \<open>
  The libraries the script calls, as parameters, with nothing assumed of them:
  \<^item> \<open>table\<close>: unidecode's transliteration table;
  \<^item> \<open>geocoder\<close>: the two rate-limited geocoders; a call returns a location or nothing and
    may change the world;
  \<^item> \<open>strftime\<close>: the clock;
  \<^item> \<open>missing\<close>: \<open>pd.isna\<close> on a value that is no \<open>str\<close>;
  \<^item> \<open>render\<close>: the text \<open>to_csv\<close> writes for a value that is no \<open>str\<close>;
  \<^item> \<open>infer\<close>: the type inference of \<open>read_csv\<close> on the address column: from the texts of
    the column, the value of the cell in each row;
  \<^item> \<open>read_float\<close>: the float that \<open>read_csv\<close> gives for a coordinate that \<open>to_csv\<close> wrote;
  \<^item> \<open>within_poly\<close>, \<open>centroid\<close>: the point-in-polygon test of the spatial join and the
    centroid of the points;
  \<^item> \<open>layers\<close>: lines 141 to 177 of \<open>build_map\<close>, the pandas and folium calls that build the
    layers of the map from the points and the named polygons, which raise or return;
  \<^item> \<open>count_table\<close>: the count table of \<open>groupby\<close> and \<open>sort_values\<close>;
  \<^item> \<open>cat_layers_js\<close>, \<open>interactivity_js\<close>: the joined \<open>cat_layers_js\<close> of line 181 and the
    result of \<open>build_interactivity_js\<close>;
  \<^item> \<open>jinja_accepts\<close>: whether Jinja2 compiles a text as a template.
\<close>

record ('w, 'p, 'v) lib =
  table :: "char \<Rightarrow> string"
  geocoder :: "provider \<Rightarrow> string \<Rightarrow> 'w \<Rightarrow> location option \<times> 'w"
  strftime :: "'w \<Rightarrow> string \<times> 'w"
  missing :: "'v \<Rightarrow> bool"
  render :: "'v \<Rightarrow> string"
  infer :: "string list \<Rightarrow> nat \<Rightarrow> 'v key"
  read_float :: "pyfloat \<Rightarrow> pyfloat"
  within_poly :: "pyfloat \<times> pyfloat \<Rightarrow> 'p \<Rightarrow> bool"
  centroid :: "(pyfloat \<times> pyfloat) list \<Rightarrow> pyfloat \<times> pyfloat"
  layers :: "'v joined_row list \<Rightarrow> ('p \<times> string option) list \<Rightarrow> error option"
  count_table :: "string option list \<Rightarrow> (string \<times> nat) list"
  cat_layers_js :: "'v joined_row list \<Rightarrow> string"
  interactivity_js :: "'v joined_row list \<Rightarrow> string"
  jinja_accepts :: "string \<Rightarrow> bool"

section \<open>Geocoding with a cache\<close>

text \<open>
  \<open>Series.dropna()\<close> and \<open>Series.unique()\<close>: the cells that are not missing, in order of
  first appearance. A \<open>str\<close> is never missing.
\<close>

definition is_null :: "('w, 'p, 'v) lib \<Rightarrow> 'v key \<Rightarrow> bool" where
  "is_null l k = (case k of Text t \<Rightarrow> False | Value v \<Rightarrow> missing l v)"

definition dropna :: "('w, 'p, 'v) lib \<Rightarrow> 'v key list \<Rightarrow> 'v key list" where
  "dropna l xs = filter (\<lambda>k. \<not> is_null l k) xs"

definition unique :: "'a list \<Rightarrow> 'a list" where
  "unique xs = rev (remdups (rev xs))"

text \<open>A call \<open>geo_osm(q)\<close> or \<open>geo_arc(q)\<close>, entered in the log.\<close>

definition query ::
  "('w, 'p, 'v) lib \<Rightarrow> provider \<Rightarrow> string \<Rightarrow> 'w sys \<Rightarrow> location option \<times> 'w sys" where
  "query l p q s =
     (let (r, w) = geocoder l p q (world s)
      in (r, s\<lparr>world := w, calls := calls s @ [(p, q, r)]\<rparr>))"

text \<open>\<open>geo_osm(q) or geo_arc(q)\<close>: the second call is made only when the first gave nothing.\<close>

definition osm_or_arc :: "('w, 'p, 'v) lib \<Rightarrow> string \<Rightarrow> 'w sys \<Rightarrow> location option \<times> 'w sys" where
  "osm_or_arc l q s =
     (case query l Nominatim q s of
        (Some loc, s1) \<Rightarrow> (Some loc, s1)
      | (None, s1) \<Rightarrow> query l ArcGIS q s1)"

definition q_full :: "('w, 'p, 'v) lib \<Rightarrow> string \<Rightarrow> string \<Rightarrow> string" where
  "q_full l city_hint addr = normalize_address (table l) addr @ '', '' @ city_hint"

definition street_only :: "string \<Rightarrow> string" where
  "street_only addr = strip (re_sub m_house [] False addr)"

definition q_street :: "('w, 'p, 'v) lib \<Rightarrow> string \<Rightarrow> string \<Rightarrow> string" where
  "q_street l city_hint addr = normalize_address (table l) (street_only addr) @ '', '' @ city_hint"

text \<open>Lines 50 to 55: the lookup of one address that the cache does not satisfy.\<close>

definition lookup ::
  "('w, 'p, 'v) lib \<Rightarrow> string \<Rightarrow> string \<Rightarrow> 'w sys \<Rightarrow> location option \<times> 'w sys" where
  "lookup l city_hint addr s =
     (case osm_or_arc l (q_full l city_hint addr) s of
        (Some loc, s1) \<Rightarrow> (Some loc, s1)
      | (None, s1) \<Rightarrow> osm_or_arc l (q_street l city_hint addr) s1)"

text \<open>
  \<open>_save_cache\<close>: one row per entry of the dict, each with its own reading of the clock. A
  key that is a \<open>str\<close> is written as it is, another key as \<open>to_csv\<close> renders it. For a dict
  with no entry the dataframe has no rows and no columns.
\<close>

definition key_text :: "('w, 'p, 'v) lib \<Rightarrow> 'v key \<Rightarrow> string" where
  "key_text l k = (case k of Text t \<Rightarrow> t | Value v \<Rightarrow> render l v)"

fun cache_rows :: "('w, 'p, 'v) lib \<Rightarrow> 'v cache \<Rightarrow> 'w \<Rightarrow> csv_row list \<times> 'w" where
  "cache_rows l [] w = ([], w)"
| "cache_rows l ((k, v) # c) w =
     (let (t, w1) = strftime l w;
          (rs, w2) = cache_rows l c w1
      in (\<lparr>csv_address = key_text l k, csv_lat = fst v, csv_lon = snd v,
           csv_timestamp_iso = t\<rparr> # rs, w2))"

definition save_cache :: "('w, 'p, 'v) lib \<Rightarrow> 'v cache \<Rightarrow> string \<Rightarrow> 'w sys \<Rightarrow> 'w sys" where
  "save_cache l c path s =
     (let (rs, w) = cache_rows l c (world s)
      in s\<lparr>world := w,
           files := (files s)(path \<mapsto> (if c = [] then EmptyCsv else CacheCsv rs)),
           io := io s @ [Write path]\<rparr>)"

text \<open>Line 48: the address is in the cache and its latitude is not NaN.\<close>

definition cached_ok :: "'v cache \<Rightarrow> 'v key \<Rightarrow> bool" where
  "cached_ok c addr = (case map_of c addr of None \<Rightarrow> False | Some v \<Rightarrow> \<not> isna (fst v))"

definition coords_of :: "location option \<Rightarrow> pyfloat \<times> pyfloat" where
  "coords_of loc = (case loc of Some x \<Rightarrow> (latitude x, longitude x) | None \<Rightarrow> (NaN, NaN))"

text \<open>
  The body of the loop, lines 48 to 58, for an address that is a \<open>str\<close> (the progress bar is
  left out).
\<close>

definition geocode_step ::
  "('w, 'p, 'v) lib \<Rightarrow> string \<Rightarrow> string \<Rightarrow> string \<Rightarrow> 'v cache \<times> 'w sys \<Rightarrow> 'v cache \<times> 'w sys" where
  "geocode_step l city_hint cache_path addr cs =
     (let (c, s) = cs in
      if cached_ok c (Text addr) then (c, s)
      else (let (loc, s1) = lookup l city_hint addr s;
                c1 = AList.update (Text addr) (coords_of loc) c
            in (c1, if length c1 mod 100 = 0 then save_cache l c1 cache_path s1 else s1)))"

text \<open>
  The body of the loop for any cell: for a value that is no \<open>str\<close> and that the cache does
  not satisfy, \<open>addr.strip()\<close> in \<open>normalize_address\<close> raises.
\<close>

definition loop_body ::
  "('w, 'p, 'v) lib \<Rightarrow> string \<Rightarrow> string \<Rightarrow> 'v key \<Rightarrow> 'v cache \<times> 'w sys
     \<Rightarrow> error + 'v cache \<times> 'w sys" where
  "loop_body l city_hint cache_path k cs =
     (case k of
        Text addr \<Rightarrow> Inr (geocode_step l city_hint cache_path addr cs)
      | Value v \<Rightarrow> if cached_ok (fst cs) (Value v) then Inr cs else Inl AttributeError)"

fun geocode_loop ::
  "('w, 'p, 'v) lib \<Rightarrow> string \<Rightarrow> string \<Rightarrow> 'v key list \<Rightarrow> 'v cache \<times> 'w sys
     \<Rightarrow> error option \<times> 'v cache \<times> 'w sys" where
  "geocode_loop l city_hint cache_path [] cs = (None, cs)"
| "geocode_loop l city_hint cache_path (k # ks) cs =
     (case loop_body l city_hint cache_path k cs of
        Inl e \<Rightarrow> (Some e, cs)
      | Inr cs1 \<Rightarrow> geocode_loop l city_hint cache_path ks cs1)"

text \<open>
  Lines 37 to 39: \<open>read_csv\<close> and the dict comprehension over the rows, if the file exists.
  The key of a row is what \<open>read_csv\<close> makes of the text of its address field, and its
  coordinates are what \<open>read_csv\<close> makes of the written ones. A header with no rows gives
  the empty dict; the text written for a dataframe with no columns makes \<open>read_csv\<close>
  raise; a saved map at the path is taken to make it raise too.
\<close>

definition cache_of_rows :: "('w, 'p, 'v) lib \<Rightarrow> csv_row list \<Rightarrow> 'v cache" where
  "cache_of_rows l rs =
     foldl (\<lambda>c (i, r). AList.update (infer l (map csv_address rs) i)
                          (read_float l (csv_lat r), read_float l (csv_lon r)) c) []
       (zip [0..<length rs] rs)"

definition load_cache ::
  "('w, 'p, 'v) lib \<Rightarrow> string \<Rightarrow> 'w sys \<Rightarrow> error option \<times> 'v cache \<times> 'w sys" where
  "load_cache l path s =
     (case files s path of
        None \<Rightarrow> (None, [], s)
      | Some (CacheCsv rs) \<Rightarrow> (None, cache_of_rows l rs, s\<lparr>io := io s @ [Read path]\<rparr>)
      | Some EmptyCsv \<Rightarrow> (Some EmptyDataError, [], s\<lparr>io := io s @ [Read path]\<rparr>)
      | Some (HtmlPage pg) \<Rightarrow> (Some ParserError, [], s\<lparr>io := io s @ [Read path]\<rparr>))"

text \<open>\<open>cache.get(a, (nan, nan))\<close> for a cell of the address column.\<close>

definition cache_get :: "'v cache \<Rightarrow> 'v key \<Rightarrow> pyfloat \<times> pyfloat" where
  "cache_get c a = (case map_of c a of None \<Rightarrow> (NaN, NaN) | Some v \<Rightarrow> v)"

text \<open>\<open>df[n] = ...\<close> on the column names: a new column comes last.\<close>

definition set_column :: "string \<Rightarrow> string list \<Rightarrow> string list" where
  "set_column n cols = (if n \<in> set cols then cols else cols @ [n])"

text \<open>
  \<open>geocode_addresses\<close>: the cache is loaded (lines 37 to 39); \<open>df[address_col]\<close> raises when
  the dataframe has no such column (line 46); the loop runs over the cells of the column
  that are not missing, each once, in order of first appearance (lines 47 to 58); the
  cache is saved (line 59); \<open>lat\<close> and \<open>lon\<close> of every row are read from the cache by the
  row's cell (lines 60 and 61). An exception ends the run in the state reached.
\<close>

definition geocode_addresses ::
  "('w, 'p, 'v) lib \<Rightarrow> 'v dataframe \<Rightarrow> text_column \<Rightarrow> string \<Rightarrow> string \<Rightarrow> 'w sys
     \<Rightarrow> error option \<times> 'v dataframe \<times> 'w sys" where
  "geocode_addresses l df address_col city_hint cache_path s =
     (case load_cache l cache_path s of
        (Some e, c0, s0) \<Rightarrow> (Some e, df, s0)
      | (None, c0, s0) \<Rightarrow>
          if column_name address_col \<notin> set (columns df) then (Some KeyError, df, s0)
          else
          (case geocode_loop l city_hint cache_path
                  (unique (dropna l (map (cell address_col) (rows df)))) (c0, s0) of
             (Some e, c, s1) \<Rightarrow> (Some e, df, s1)
           | (None, c, s1) \<Rightarrow>
               (let s2 = save_cache l c cache_path s1;
                    rs = map (\<lambda>r. r\<lparr>lat := fst (cache_get c (cell address_col r))\<rparr>) (rows df);
                    rs = map (\<lambda>r. r\<lparr>lon := snd (cache_get c (cell address_col r))\<rparr>) rs
                in (None,
                    \<lparr>columns = set_column ''lon'' (set_column ''lat'' (columns df)), rows = rs\<rparr>,
                    s2))))"

section \<open>Points, spatial join and the map\<close>

text \<open>
  \<open>to_gdf\<close>: a row gets the point \<open>(lon, lat)\<close> as its geometry, or none when one of the two
  is NaN; \<open>dropna(subset=['geometry'])\<close> then removes the rows without a geometry.
\<close>

definition to_gdf :: "'v dataframe \<Rightarrow> 'v geo_row list" where
  "to_gdf df =
     List.map_filter
       (\<lambda>r. if \<not> (isna (lon r) \<or> isna (lat r))
            then Some \<lparr>src = r, geometry = (lon r, lat r)\<rparr> else None)
       (rows df)"

text \<open>
  \<open>spatial_join\<close>: a left join on \<open>within\<close>. A point gets one row for every polygon it lies
  in, named by the polygon's name column, and one row without a name when it lies in none.
  The polygons are taken to have the name column.
\<close>

definition spatial_join ::
  "('w, 'p, 'v) lib \<Rightarrow> 'v geo_row list \<Rightarrow> 'p list \<Rightarrow> ('p \<Rightarrow> string option) \<Rightarrow> 'v joined_row list" where
  "spatial_join l pts polys name_col =
     concat (map (\<lambda>p. case filter (within_poly l (geometry p)) polys of
                         [] \<Rightarrow> [\<lparr>pt = p, osiedle = None\<rparr>]
                       | hs \<Rightarrow> map (\<lambda>h. \<lparr>pt = p, osiedle = name_col h\<rparr>) hs) pts)"

text \<open>\<open>str\<close> of a non-negative integer.\<close>

function str_nat :: "nat \<Rightarrow> string" where
  "str_nat n = (if n < 10 then [char_of (48 + n)] else str_nat (n div 10) @ [char_of (48 + n mod 10)])"
  by pat_completeness auto
termination
  by (relation "measure (\<lambda>n. n)") auto

definition nl :: string where
  "nl = [CHR 0x0A]"

definition sidebar_row :: "string \<times> nat \<Rightarrow> string" where
  "sidebar_row r =
     ''<tr data-os='' @ [CHR 0x27] @ fst r @ [CHR 0x27] @ ''><td>'' @ fst r @
     ''</td><td class='cnt' style='text-align:right'>'' @ str_nat (snd r) @ ''</td></tr>''"

definition sidebar_head :: string where
  "sidebar_head =
     ''<div id='sidebar' style='position:fixed;top:70px;left:10px;width:280px;max-height:80vh;overflow:auto;z-index:999999;background:white;border-radius:8px;padding:10px 14px;box-shadow:0 0 15px rgba(0,0,0,.2);font-size:14px;'>'' @ nl @
     ''  <h4 style='margin:0 0 6px 0;'>Punkty z alkoholem<br><small>wg osiedli</small></h4>'' @ nl @
     ''  <table id='osTable' class='display' style='width:100%'>'' @ nl @
     ''    <thead><tr><th>Osiedle</th><th>Liczba</th></tr></thead>'' @ nl @
     ''    <tbody>''"

definition sidebar_foot :: string where
  "sidebar_foot =
     ''</tbody>'' @ nl @
     ''  </table>'' @ nl @
     ''  <hr>'' @ nl @
     ''  <h4 style='margin:6px 0;'>Filtr typu</h4>'' @ nl @
     ''  <div id='typeFilters'></div>'' @ nl @
     ''</div>'' @ nl"

text \<open>Lines 89 to 91: the stylesheet and the two scripts the sidebar loads.\<close>

definition sidebar_links :: "string list" where
  "sidebar_links =
     [''<link rel='stylesheet' href='https://cdn.datatables.net/1.13.7/css/jquery.dataTables.min.css'>'',
      ''<script src='https://code.jquery.com/jquery-3.7.0.min.js'></script>'',
      ''<script src='https://cdn.datatables.net/1.13.7/js/jquery.dataTables.min.js'></script>'']"

definition build_sidebar :: "(string \<times> nat) list \<Rightarrow> string" where
  "build_sidebar counts_df =
     (let tbody = concat (map sidebar_row counts_df)
      in sidebar_head @ tbody @ sidebar_foot @
         sidebar_links ! 0 @ nl @ sidebar_links ! 1 @ nl @ sidebar_links ! 2)"

text \<open>
  \<open>folium.Element(text)\<close> compiles the text as a Jinja2 template when the element is made.
  A text whose first brace opens a print statement with nothing in it, \<open>{{}}\<close>, is a syntax
  error; whether another text compiles is the library's matter.
\<close>

definition empty_print :: "string \<Rightarrow> bool" where
  "empty_print t = (take 4 (dropWhile (\<lambda>c. c \<noteq> CHR ''{'') t) = ''{{}}'')"

definition element :: "('w, 'p, 'v) lib \<Rightarrow> string \<Rightarrow> error + string" where
  "element l t =
     (if empty_print t \<or> \<not> jinja_accepts l t then Inl TemplateSyntaxError else Inr t)"

text \<open>
  \<open>build_map\<close>: the layers are built (lines 141 to 177); the sidebar (line 180), the
  \<open>catLayers\<close> script (line 181, a plain string, not an f-string, so its two pairs of braces
  stay as they are) and the interactivity script (line 182) are made into elements and
  added to the page; \<open>m.save(outfile)\<close> writes the file (line 184). The map is centred at
  \<open>start\<close>, and the heat layer gets \<open>[y, x]\<close> of every point.
\<close>

definition build_map ::
  "('w, 'p, 'v) lib \<Rightarrow> 'v joined_row list \<Rightarrow> 'p list \<Rightarrow> ('p \<Rightarrow> string option)
     \<Rightarrow> pyfloat \<times> pyfloat \<Rightarrow> string \<Rightarrow> 'w sys \<Rightarrow> error option \<times> 'w sys" where
  "build_map l pts osd name_col st outfile s =
     (case layers l pts (map (\<lambda>h. (h, name_col h)) osd) of
        Some e \<Rightarrow> (Some e, s)
      | None \<Rightarrow>
     (case element l (build_sidebar (count_table l (map osiedle pts))) of
        Inl e \<Rightarrow> (Some e, s)
      | Inr e1 \<Rightarrow>
     (case element l (''<script>var catLayers={{}};</script>'' @ cat_layers_js l pts) of
        Inl e \<Rightarrow> (Some e, s)
      | Inr e2 \<Rightarrow>
     (case element l (interactivity_js l pts) of
        Inl e \<Rightarrow> (Some e, s)
      | Inr e3 \<Rightarrow>
          (let pg = \<lparr>start = st,
                     heat = map (\<lambda>r. (snd (geometry (pt r)), fst (geometry (pt r)))) pts,
                     html = [e1, e2, e3]\<rparr>
           in (None, s\<lparr>files := (files s)(outfile \<mapsto> HtmlPage pg),
                       io := io s @ [Write outfile]\<rparr>))))))"

text \<open>
  \<open>main\<close>, from the dataframe \<open>pd.read_excel\<close> returned and the polygons \<open>gpd.read_file\<close>
  returned. The city hint is the constant of line 200; two of its letters lie beyond code
  point 255, so it is passed in. \<open>map_start\<close> is \<open>(cent.y, cent.x)\<close> of lines 204 and 205.
\<close>

definition map_start :: "('w, 'p, 'v) lib \<Rightarrow> 'v joined_row list \<Rightarrow> pyfloat \<times> pyfloat" where
  "map_start l pts =
     (let cent = (if pts \<noteq> [] then centroid l (map (\<lambda>r. geometry (pt r)) pts)
                  else (Fin 19.458, Fin 51.759))
      in (snd cent, fst cent))"

definition main ::
  "('w, 'p, 'v) lib \<Rightarrow> string \<Rightarrow> 'v dataframe \<Rightarrow> 'p list \<Rightarrow> ('p \<Rightarrow> string option) \<Rightarrow> string
     \<Rightarrow> string \<Rightarrow> 'w sys \<Rightarrow> error option \<times> 'w sys" where
  "main l city df osd name_col cache_arg out_arg s =
     (case (if ''lat'' \<notin> set (columns df) \<or> ''lon'' \<notin> set (columns df)
            then geocode_addresses l df Adres_punktu city cache_arg s
            else (None, df, s)) of
        (Some e, df1, s1) \<Rightarrow> (Some e, s1)
      | (None, df1, s1) \<Rightarrow>
          (let pts = spatial_join l (to_gdf df1) osd name_col
           in build_map l pts osd name_col (map_start l pts) out_arg s1))"

section \<open>Predicates used in the statements\<close>

text \<open>
  The order of calls for one address, as a predicate on the calls made: Nominatim with the
  full query; ArcGIS with the full query only behind a Nominatim call that gave nothing;
  the street query, Nominatim first, only behind two calls that gave nothing.
\<close>

fun fallback_order :: "string \<Rightarrow> string \<Rightarrow> call list \<Rightarrow> bool" where
  "fallback_order qf qs [(p1, q1, r1)] = (p1 = Nominatim \<and> q1 = qf \<and> r1 \<noteq> None)"
| "fallback_order qf qs [(p1, q1, r1), (p2, q2, r2)] =
     (p1 = Nominatim \<and> q1 = qf \<and> r1 = None \<and> p2 = ArcGIS \<and> q2 = qf \<and> r2 \<noteq> None)"
| "fallback_order qf qs [(p1, q1, r1), (p2, q2, r2), (p3, q3, r3)] =
     (p1 = Nominatim \<and> q1 = qf \<and> r1 = None \<and> p2 = ArcGIS \<and> q2 = qf \<and> r2 = None \<and>
      p3 = Nominatim \<and> q3 = qs \<and> r3 \<noteq> None)"
| "fallback_order qf qs [(p1, q1, r1), (p2, q2, r2), (p3, q3, r3), (p4, q4, r4)] =
     (p1 = Nominatim \<and> q1 = qf \<and> r1 = None \<and> p2 = ArcGIS \<and> q2 = qf \<and> r2 = None \<and>
      p3 = Nominatim \<and> q3 = qs \<and> r3 = None \<and> p4 = ArcGIS \<and> q4 = qs)"
| "fallback_order qf qs _ = False"

text \<open>
  A street name without a number in it: no whitespace is followed by a digit, and the last
  character is no whitespace.
\<close>

fun numberless :: "string \<Rightarrow> bool" where
  "numberless [] = True"
| "numberless [c] = (\<not> is_space c)"
| "numberless (c # d # r) = ((if is_space c then \<not> is_digit d else True) \<and> numberless (d # r))"

text \<open>The pattern of matcher \<open>m\<close> matches somewhere in the string.\<close>

fun has_match :: "(bool \<Rightarrow> string \<Rightarrow> nat option) \<Rightarrow> bool \<Rightarrow> string \<Rightarrow> bool" where
  "has_match m pw [] = False"
| "has_match m pw (c # cs) = (m pw (c # cs) \<noteq> None \<or> has_match m (is_word c) cs)"

definition removal_matches :: "string \<Rightarrow> bool" where
  "removal_matches s =
     (has_match m_ul False s \<or> has_match (m_kw ''lok'') False s \<or> has_match (m_kw ''paw'') False s)"

definition ascii_only :: "string \<Rightarrow> bool" where
  "ascii_only s = list_all is_ascii s"

text \<open>Whitespace occurs only as single blanks.\<close>

fun single_spaced :: "string \<Rightarrow> bool" where
  "single_spaced [] = True"
| "single_spaced [c] = (if is_space c then c = CHR '' '' else True)"
| "single_spaced (c # d # r) =
     ((if is_space c then c = CHR '' '' \<and> \<not> is_space d else True) \<and> single_spaced (d # r))"

text \<open>A text has an attribute that loads a resource from another host.\<close>

fun contains :: "string \<Rightarrow> string \<Rightarrow> bool" where
  "contains pat [] = (pat = [])"
| "contains pat (c # cs) = (take (length pat) (c # cs) = pat \<or> contains pat cs)"

definition loads_remote :: "string \<Rightarrow> bool" where
  "loads_remote h = (contains ''src='https://'' h \<or> contains ''href='https://'' h)"

text \<open>
  What the two services answer when they are asked, from the world \<open>w\<close> on, with the full
  query \<open>qf\<close> and the street query \<open>qs\<close>: the first location that Nominatim with \<open>qf\<close>,
  ArcGIS with \<open>qf\<close>, Nominatim with \<open>qs\<close>, ArcGIS with \<open>qs\<close> give, or nothing when all four
  give nothing.
\<close>

definition providers_answer ::
  "('w, 'p, 'v) lib \<Rightarrow> string \<Rightarrow> string \<Rightarrow> 'w \<Rightarrow> location option" where
  "providers_answer l qf qs w =
     (case geocoder l Nominatim qf w of
        (Some x, w1) \<Rightarrow> Some x
      | (None, w1) \<Rightarrow>
     (case geocoder l ArcGIS qf w1 of
        (Some x, w2) \<Rightarrow> Some x
      | (None, w2) \<Rightarrow>
     (case geocoder l Nominatim qs w2 of
        (Some x, w3) \<Rightarrow> Some x
      | (None, w3) \<Rightarrow> fst (geocoder l ArcGIS qs w3))))"

section \<open>Sample runs\<close>

text \<open>
  The values of the samples that are no text: a missing cell and a number. \<open>sample_infer\<close>
  is what \<open>read_csv\<close> makes of an address column of the samples: an empty field and the
  text \<open>NA\<close> are missing; when every other field of the column is a decimal number, the
  fields are read as numbers; otherwise they stay text.
\<close>

datatype sample_value = Missing | Number nat

definition is_number :: "string \<Rightarrow> bool" where
  "is_number t = (t \<noteq> [] \<and> list_all is_digit t)"

definition number_of :: "string \<Rightarrow> nat" where
  "number_of t = foldl (\<lambda>n c. 10 * n + (code c - 48)) 0 t"

definition is_na :: "string \<Rightarrow> bool" where
  "is_na t = (t = [] \<or> t = ''NA'')"

definition sample_infer :: "string list \<Rightarrow> nat \<Rightarrow> sample_value key" where
  "sample_infer col i =
     (let t = col ! i in
      if is_na t then Value Missing
      else if list_all (\<lambda>x. is_na x \<or> is_number x) col then Value (Number (number_of t))
      else Text t)"

definition sample_render :: "sample_value \<Rightarrow> string" where
  "sample_render v = (case v of Missing \<Rightarrow> [] | Number n \<Rightarrow> str_nat n)"

text \<open>
  Two services that know a few queries, a clock, coordinates that are read back as they
  were written, districts given by a range of longitude, layers that are built without an
  error, and a Jinja2 that accepts every text but the one with the empty print statement.
\<close>

definition sample_geocoder :: "provider \<Rightarrow> string \<Rightarrow> nat \<Rightarrow> location option \<times> nat" where
  "sample_geocoder p q w =
     (if p = Nominatim \<and> q = ''Piotrkowska 104, Lodz''
      then Some \<lparr>latitude = Fin 51, longitude = Fin 19\<rparr>
      else if p = ArcGIS \<and> q = ''Zielona, Lodz''
      then Some \<lparr>latitude = Fin 52, longitude = Fin 20\<rparr>
      else if p = Nominatim \<and> q = ''104, Lodz''
      then Some \<lparr>latitude = Fin 53, longitude = Fin 21\<rparr>
      else None, Suc w)"

definition sample_lib :: "(nat, string \<times> real \<times> real, sample_value) lib" where
  "sample_lib =
     \<lparr>table = (\<lambda>c. ''?''),
      geocoder = sample_geocoder,
      strftime = (\<lambda>w. (''2025-01-01T00:00:00'', w)),
      missing = (\<lambda>v. v = Missing),
      render = sample_render,
      infer = sample_infer,
      read_float = (\<lambda>x. x),
      within_poly = (\<lambda>xy p. case fst xy of NaN \<Rightarrow> False
                              | Fin x \<Rightarrow> fst (snd p) \<le> x \<and> x < snd (snd p)),
      centroid = (\<lambda>ps. case ps of [] \<Rightarrow> (NaN, NaN) | p # _ \<Rightarrow> p),
      layers = (\<lambda>pts polys. None),
      count_table = (\<lambda>os. map (\<lambda>k. (k, length (filter (\<lambda>x. x = Some k) os)))
                             (unique (List.map_filter (\<lambda>x. x) os))),
      cat_layers_js = (\<lambda>pts. []),
      interactivity_js = (\<lambda>pts. ''<script></script>''),
      jinja_accepts = (\<lambda>t. True)\<rparr>"

text \<open>
  A spreadsheet of seven rows without coordinates, one of them without an address, and a
  cache file from an earlier run.
\<close>

definition sample_row :: "string \<Rightarrow> sample_value key \<Rightarrow> sample_value row" where
  "sample_row n a =
     \<lparr>adres_punktu = a, rodzaj = Text ''sklep'', nazwa_punktu = Text n, lat = NaN, lon = NaN\<rparr>"

definition sample_df :: "sample_value dataframe" where
  "sample_df =
     \<lparr>columns = [''Nazwa punktu'', ''Adres punktu'', ''Rodzaj''],
      rows = [sample_row ''A'' (Text ''ul. Piotrkowska 104 lok. 3''),
              sample_row ''B'' (Text ''Zielona 7''),
              sample_row ''C'' (Text ''Nieznana 1''),
              sample_row ''D'' (Value Missing),
              sample_row ''E'' (Text ''Nieznana 1''),
              sample_row ''F'' (Text ''Stara 2''),
              sample_row ''G'' (Text ''Zielona 7'')]\<rparr>"

definition sample_cache_file :: "csv_row list" where
  "sample_cache_file =
     [\<lparr>csv_address = ''Stara 2'', csv_lat = Fin 50, csv_lon = Fin 18,
       csv_timestamp_iso = ''2024-12-31T23:59:59''\<rparr>,
      \<lparr>csv_address = ''Nieznana 1'', csv_lat = NaN, csv_lon = NaN,
       csv_timestamp_iso = ''2024-12-31T23:59:59''\<rparr>]"

definition sample_cache :: "sample_value cache" where
  "sample_cache = [(Text ''Stara 2'', (Fin 50, Fin 18)), (Text ''Nieznana 1'', (NaN, NaN))]"

definition sample_sys :: "nat sys" where
  "sample_sys =
     \<lparr>world = 0, calls = [],
      files = [''geocode_cache.csv'' \<mapsto> CacheCsv sample_cache_file], io = []\<rparr>"

definition sample_osd :: "(string \<times> real \<times> real) list" where
  "sample_osd = [(''Centrum'', 18, 19.5), (''Polesie'', 19.5, 21)]"

text \<open>The same spreadsheet with coordinates already in it.\<close>

definition sample_df_latlon :: "sample_value dataframe" where
  "sample_df_latlon =
     \<lparr>columns = [''Nazwa punktu'', ''Adres punktu'', ''Rodzaj'', ''lat'', ''lon''],
      rows = [(sample_row ''A'' (Text ''ul. Piotrkowska 104 lok. 3''))\<lparr>lat := Fin 51, lon := Fin 19\<rparr>,
              sample_row ''C'' (Text ''Nieznana 1'')]\<rparr>"








text \<open>The runs of \<open>main\<close> on the two spreadsheets, from the state with the cache file.\<close>

definition sample_run :: "error option \<times> nat sys" where
  "sample_run =
     main sample_lib ''Lodz'' sample_df sample_osd (\<lambda>p. Some (fst p))
       ''geocode_cache.csv'' ''mapa_v6.html'' sample_sys"

definition sample_run_latlon :: "error option \<times> nat sys" where
  "sample_run_latlon =
     main sample_lib ''Lodz'' sample_df_latlon sample_osd (\<lambda>p. Some (fst p))
       ''geocode_cache.csv'' ''mapa_v6.html'' sample_sys"

section \<open>Effects of the geocoding operations\<close>

text \<open>What a geocoder call, a lookup and a save change in the state.\<close>

lemma query_effect:
  "query l p q s = (r, s') \<Longrightarrow>
     calls s' = calls s @ [(p, q, r)] \<and> files s' = files s \<and> io s' = io s \<and>
     r = fst (geocoder l p q (world s)) \<and> world s' = snd (geocoder l p q (world s))"
  by (auto simp: query_def split: prod.splits)

lemma osm_or_arc_effect:
  assumes "osm_or_arc l q s = (r, s')"
  shows "files s' = files s \<and> io s' = io s \<and>
         (calls s' = calls s @ [(Nominatim, q, r)] \<and> r \<noteq> None \<or>
          calls s' = calls s @ [(Nominatim, q, None), (ArcGIS, q, r)])"
  using assms
  by (auto simp: osm_or_arc_def split: prod.splits option.splits dest!: query_effect)

lemma lookup_effect:
  assumes "lookup l h a s = (loc, s')"
  shows "files s' = files s \<and> io s' = io s \<and>
         (\<exists>trail. calls s' = calls s @ trail \<and>
            fallback_order (q_full l h a) (q_street l h a) trail \<and>
            loc = snd (snd (last trail)))"
  using assms
  by (auto simp: lookup_def split: prod.splits option.splits dest!: osm_or_arc_effect)

lemma osm_or_arc_answer:
  "osm_or_arc l q s = (r, s') \<Longrightarrow>
     (case geocoder l Nominatim q (world s) of
        (Some x, w1) \<Rightarrow> r = Some x
      | (None, w1) \<Rightarrow> r = fst (geocoder l ArcGIS q w1) \<and> world s' = snd (geocoder l ArcGIS q w1))"
  by (auto simp: osm_or_arc_def query_def split: prod.splits option.splits)

lemma lookup_answer:
  "fst (lookup l h a s) = providers_answer l (q_full l h a) (q_street l h a) (world s)"
  by (auto simp: lookup_def providers_answer_def osm_or_arc_def query_def
           split: prod.splits option.splits)

lemma lookup_first_call:
  "\<exists>rest. calls (snd (lookup l h a s))
     = calls s @ (Nominatim, q_full l h a, fst (geocoder l Nominatim (q_full l h a) (world s))) # rest"
  by (auto simp: lookup_def osm_or_arc_def query_def split: prod.splits option.splits)

lemma set_dropna: "set (dropna l xs) = {k \<in> set xs. \<not> is_null l k}"
  by (auto simp: dropna_def)

lemma set_unique: "set (unique xs) = set xs"
  by (simp add: unique_def)

lemma distinct_unique: "distinct (unique xs)"
  by (simp add: unique_def)

lemma cache_rows_entries:
  "cache_rows l c w = (rs, w') \<Longrightarrow>
     map (\<lambda>r. (csv_address r, csv_lat r, csv_lon r)) rs = map (\<lambda>e. (key_text l (fst e), snd e)) c"
  by (induction c arbitrary: w rs w') (auto split: prod.splits)

lemma save_cache_files:
  "files (save_cache l c p s)
     = (files s)(p \<mapsto> (if c = [] then EmptyCsv else CacheCsv (fst (cache_rows l c (world s)))))"
  by (simp add: save_cache_def split: prod.splits)

lemma save_cache_calls: "calls (save_cache l c p s) = calls s"
  by (simp add: save_cache_def split: prod.splits)

lemma save_cache_io: "io (save_cache l c p s) = io s @ [Write p]"
  by (simp add: save_cache_def split: prod.splits)

lemma cache_of_rows_distinct: "distinct (map fst (cache_of_rows l rs))"
proof -
  have "distinct (map fst acc) \<Longrightarrow>
        distinct (map fst (foldl (\<lambda>c (i, r). AList.update (f i) (g r) c) acc xs))" for acc f g
    and xs :: "(nat \<times> csv_row) list"
    by (induction xs arbitrary: acc) (auto simp: distinct_update)
  from this[of "[]"] show ?thesis by (simp add: cache_of_rows_def)
qed

lemma step_cached: "cached_ok c (Text a) \<Longrightarrow> geocode_step l h p a (c, s) = (c, s)"
  by (simp add: geocode_step_def)

lemma step_keys:
  "fst ` set (fst (geocode_step l h p a (c, s))) = insert (Text a) (fst ` set c)"
  by (auto simp: geocode_step_def cached_ok_def dom_update Let_def rev_image_eqI
           split: prod.splits option.splits dest!: map_of_SomeD)

lemma step_distinct:
  "distinct (map fst c) \<Longrightarrow> distinct (map fst (fst (geocode_step l h p a (c, s))))"
  by (auto simp: geocode_step_def distinct_update Let_def split: prod.splits)

lemma step_other:
  "b \<noteq> Text a \<Longrightarrow> map_of (fst (geocode_step l h p a (c, s))) b = map_of c b"
  by (auto simp: geocode_step_def update_conv' Let_def split: prod.splits)

lemma step_files_other:
  "q \<noteq> p \<Longrightarrow> files (snd (geocode_step l h p a (c, s))) q = files s q"
  by (auto simp: geocode_step_def Let_def save_cache_files split: prod.splits dest!: lookup_effect)

lemma step_io:
  "\<exists>evs. io (snd (geocode_step l h p a (c, s))) = io s @ evs \<and> set evs \<subseteq> {Write p}"
proof (cases "cached_ok c (Text a)")
  case True
  then show ?thesis by (simp add: step_cached)
next
  case False
  obtain loc s1 where lk: "lookup l h a s = (loc, s1)" by (cases "lookup l h a s")
  have "io s1 = io s" using lookup_effect[OF lk] by simp
  then show ?thesis using False lk
    by (auto simp: geocode_step_def Let_def save_cache_io)
qed

text \<open>The same for the loop body at any cell, when it raises nothing.\<close>

lemma body_text: "loop_body l h p (Text a) cs = Inr (geocode_step l h p a cs)"
  by (simp add: loop_body_def)

lemma body_cases:
  assumes "loop_body l h p k (c, s) = Inr cs1"
  obtains a where "k = Text a" and "cs1 = geocode_step l h p a (c, s)"
  | v where "k = Value v" and "cached_ok c k" and "cs1 = (c, s)"
  using assms by (cases k) (auto simp: loop_body_def split: if_splits)

lemma cached_ok_key: "cached_ok c k \<Longrightarrow> k \<in> fst ` set c"
  by (auto simp: cached_ok_def rev_image_eqI split: option.splits dest!: map_of_SomeD)

lemma body_keys:
  "loop_body l h p k (c, s) = Inr cs1 \<Longrightarrow> fst ` set (fst cs1) = insert k (fst ` set c)"
  by (erule body_cases) (auto simp: step_keys dest: cached_ok_key)

lemma body_distinct:
  "loop_body l h p k (c, s) = Inr cs1 \<Longrightarrow> distinct (map fst c) \<Longrightarrow> distinct (map fst (fst cs1))"
  by (erule body_cases) (auto simp: step_distinct)

lemma body_other:
  "loop_body l h p k (c, s) = Inr cs1 \<Longrightarrow> b \<noteq> k \<Longrightarrow> map_of (fst cs1) b = map_of c b"
  by (erule body_cases) (auto simp: step_other)

lemma body_files_other:
  "loop_body l h p k (c, s) = Inr cs1 \<Longrightarrow> q \<noteq> p \<Longrightarrow> files (snd cs1) q = files s q"
  by (erule body_cases) (auto simp: step_files_other)

lemma body_io:
  "loop_body l h p k (c, s) = Inr cs1 \<Longrightarrow>
     \<exists>evs. io (snd cs1) = io s @ evs \<and> set evs \<subseteq> {Write p}"
  by (erule body_cases) (use step_io in auto)

lemma loop_append:
  "geocode_loop l h p (xs @ ys) cs =
     (case geocode_loop l h p xs cs of
        (None, cs1) \<Rightarrow> geocode_loop l h p ys cs1
      | (Some e, cs1) \<Rightarrow> (Some e, cs1))"
  by (induction xs arbitrary: cs) (auto split: sum.splits)

lemma loop_prefix:
  "geocode_loop l h p xs cs = (None, cs1) \<Longrightarrow>
     geocode_loop l h p (xs @ ys) cs = geocode_loop l h p ys cs1"
  by (simp add: loop_append)

lemma loop_keys:
  "geocode_loop l h p ks cs = (None, cs1) \<Longrightarrow> fst ` set (fst cs1) = fst ` set (fst cs) \<union> set ks"
proof (induction ks arbitrary: cs)
  case Nil
  then show ?case by simp
next
  case (Cons k ks)
  obtain c s where cs: "cs = (c, s)" by (cases cs)
  from Cons.prems obtain cs2 where b: "loop_body l h p k (c, s) = Inr cs2"
    and r: "geocode_loop l h p ks cs2 = (None, cs1)"
    by (auto simp: cs split: sum.splits)
  show ?case using Cons.IH[OF r] body_keys[OF b] by (auto simp: cs)
qed

lemma loop_distinct:
  "distinct (map fst (fst cs)) \<Longrightarrow> distinct (map fst (fst (snd (geocode_loop l h p ks cs))))"
proof (induction ks arbitrary: cs)
  case Nil
  then show ?case by simp
next
  case (Cons k ks)
  obtain c s where cs: "cs = (c, s)" by (cases cs)
  show ?case
  proof (cases "loop_body l h p k (c, s)")
    case (Inl e)
    then show ?thesis using Cons.prems by (simp add: cs)
  next
    case (Inr cs2)
    then show ?thesis using Cons.IH[of cs2] body_distinct[OF Inr] Cons.prems by (simp add: cs)
  qed
qed

lemma loop_other:
  "b \<notin> set ks \<Longrightarrow> map_of (fst (snd (geocode_loop l h p ks cs))) b = map_of (fst cs) b"
proof (induction ks arbitrary: cs)
  case Nil
  then show ?case by simp
next
  case (Cons k ks)
  obtain c s where cs: "cs = (c, s)" by (cases cs)
  show ?case
  proof (cases "loop_body l h p k (c, s)")
    case (Inl e)
    then show ?thesis by (simp add: cs)
  next
    case (Inr cs2)
    then show ?thesis using Cons.IH[of cs2] body_other[OF Inr, of b] Cons.prems by (simp add: cs)
  qed
qed

lemma loop_files_other:
  "q \<noteq> p \<Longrightarrow> files (snd (snd (geocode_loop l h p ks cs))) q = files (snd cs) q"
proof (induction ks arbitrary: cs)
  case Nil
  then show ?case by simp
next
  case (Cons k ks)
  obtain c s where cs: "cs = (c, s)" by (cases cs)
  show ?case
  proof (cases "loop_body l h p k (c, s)")
    case (Inl e)
    then show ?thesis by (simp add: cs)
  next
    case (Inr cs2)
    then show ?thesis using Cons.IH[of cs2] body_files_other[OF Inr, of q] Cons.prems
      by (simp add: cs)
  qed
qed

lemma loop_io:
  "\<exists>evs. io (snd (snd (geocode_loop l h p ks cs))) = io (snd cs) @ evs \<and> set evs \<subseteq> {Write p}"
proof (induction ks arbitrary: cs)
  case Nil
  then show ?case by simp
next
  case (Cons k ks)
  obtain c s where cs: "cs = (c, s)" by (cases cs)
  show ?case
  proof (cases "loop_body l h p k (c, s)")
    case (Inl e)
    then show ?thesis by (simp add: cs)
  next
    case (Inr cs2)
    from body_io[OF Inr] obtain e1 where
      e1: "io (snd cs2) = io s @ e1" "set e1 \<subseteq> {Write p}" by blast
    from Cons.IH[of cs2] obtain e2 where
      e2: "io (snd (snd (geocode_loop l h p ks cs2))) = io (snd cs2) @ e2" "set e2 \<subseteq> {Write p}"
      by blast
    have "io (snd (snd (geocode_loop l h p (k # ks) cs))) = io (snd cs) @ (e1 @ e2)"
      using e1(1) e2(1) Inr by (simp add: cs)
    moreover have "set (e1 @ e2) \<subseteq> {Write p}" using e1(2) e2(2) by simp
    ultimately show ?thesis by blast
  qed
qed

text \<open>
  The loop raises only at a cell that is no \<open>str\<close>: over cells that are all \<open>str\<close> it
  returns.
\<close>

lemma loop_returns:
  "list_all (\<lambda>k. case k of Text a \<Rightarrow> True | Value v \<Rightarrow> False) ks \<Longrightarrow>
     fst (geocode_loop l h p ks cs) = None"
proof (induction ks arbitrary: cs)
  case Nil
  then show ?case by simp
next
  case (Cons k ks)
  then obtain a where k: "k = Text a" by (cases k) auto
  show ?case using Cons by (simp add: k body_text)
qed

section \<open>The order of the providers\<close>

lemma fallback_order_first:
  "fallback_order qf qs t \<Longrightarrow> \<exists>r rest. t = (Nominatim, qf, r) # rest"
  by (induction qf qs t rule: fallback_order.induct) auto

lemma step_lookup:
  assumes "\<not> cached_ok c (Text a)"
  shows "\<exists>trail. calls (snd (geocode_step l h p a (c, s))) = calls s @ trail \<and>
           fallback_order (q_full l h a) (q_street l h a) trail \<and>
           snd (snd (last trail)) = fst (lookup l h a s) \<and>
           map_of (fst (geocode_step l h p a (c, s))) (Text a)
             = Some (coords_of (fst (lookup l h a s)))"
proof -
  obtain loc s1 where lk: "lookup l h a s = (loc, s1)" by (cases "lookup l h a s")
  from lookup_effect[OF lk] obtain trail where
    t: "calls s1 = calls s @ trail" "fallback_order (q_full l h a) (q_street l h a) trail"
       "loc = snd (snd (last trail))" by blast
  show ?thesis using assms t lk
    by (auto simp: geocode_step_def Let_def save_cache_calls update_conv')
qed

lemma digit_not_space: "is_digit d \<Longrightarrow> \<not> is_space d"
  by (auto simp: is_digit_def is_space_def Let_def)

lemma digit_not_newline: "is_digit d \<Longrightarrow> d \<noteq> CHR 0x0A"
  by (auto simp: is_digit_def code_def Let_def)

lemma numberless_tl: "numberless (c # d # r) \<Longrightarrow> numberless (d # r)"
  by simp

lemma numberless_next:
  "numberless (c # cs) \<Longrightarrow>
     \<exists>x tl. dropWhile is_space (c # cs @ t) = x # tl \<and> \<not> is_space x \<and> (is_space c \<longrightarrow> \<not> is_digit x)"
proof (induction cs arbitrary: c)
  case Nil
  then show ?case by simp
next
  case (Cons e r)
  show ?case
  proof (cases "is_space c")
    case False
    then show ?thesis by simp
  next
    case True
    from Cons.IH[OF numberless_tl[OF Cons.prems]] obtain x tl where
      x: "dropWhile is_space (e # r @ t) = x # tl" "\<not> is_space x" "is_space e \<longrightarrow> \<not> is_digit x"
      by blast
    have "\<not> is_digit x"
    proof (cases "is_space e")
      case True
      then show ?thesis using x(3) by simp
    next
      case False
      then have "x = e" using x(1) by simp
      then show ?thesis using Cons.prems \<open>is_space c\<close> by simp
    qed
    then show ?thesis using True x by simp
  qed
qed

lemma m_house_numberless: "numberless (c # cs) \<Longrightarrow> m_house pw (c # cs @ t) = None"
proof -
  assume n: "numberless (c # cs)"
  from numberless_next[OF n, of t] obtain x tl where
    x: "dropWhile is_space (c # cs @ t) = x # tl" "\<not> is_space x" "is_space c \<longrightarrow> \<not> is_digit x"
    by blast
  show ?thesis
  proof (cases "is_space c")
    case True
    then have "\<not> is_digit x" using x(3) by simp
    then show ?thesis using x(1) unfolding m_house_def Let_def by (simp del: dropWhile.simps)
  next
    case False
    then show ?thesis by (simp add: m_house_def)
  qed
qed

lemma m_house_number:
  assumes "ws \<noteq> []" and "list_all is_space ws" and "is_digit d" and "CHR 0x0A \<notin> set rest"
  shows "m_house pw (ws @ d # rest) = Some (length (ws @ d # rest))"
proof -
  have nd: "\<not> is_space d" using assms(3) by (rule digit_not_space)
  have tw: "takeWhile is_space (ws @ d # rest) = ws"
    using assms(2) nd by (simp add: takeWhile_append2 list_all_iff)
  have dw: "dropWhile is_space (ws @ d # rest) = d # rest"
    using assms(2) nd by (simp add: dropWhile_append2 list_all_iff)
  have line: "takeWhile (\<lambda>c. c \<noteq> CHR 0x0A) (d # rest) = d # rest"
    using assms(4) digit_not_newline[OF assms(3)] by (auto simp: takeWhile_eq_all_conv)
  have rest: "dropWhile (\<lambda>c. c \<noteq> CHR 0x0A) (d # rest) = []"
    using assms(4) digit_not_newline[OF assms(3)] by (auto simp: dropWhile_eq_Nil_conv)
  have "m_house pw (ws @ d # rest)
          = (if dropWhile (\<lambda>c. c \<noteq> CHR 0x0A) (d # rest) = []
                \<or> dropWhile (\<lambda>c. c \<noteq> CHR 0x0A) (d # rest) = [CHR 0x0A]
             then Some (length ws + length (takeWhile (\<lambda>c. c \<noteq> CHR 0x0A) (d # rest))) else None)"
    unfolding m_house_def Let_def tw dw using assms(1,3)
    by (simp del: takeWhile.simps dropWhile.simps)
  then show ?thesis unfolding line rest by simp
qed

lemma re_sub_house:
  assumes "numberless street" and "ws \<noteq> []" and "list_all is_space ws" and "is_digit d"
    and "CHR 0x0A \<notin> set rest"
  shows "re_sub m_house [] pw (street @ ws @ d # rest) = street"
  using assms(1)
proof (induction street arbitrary: pw)
  case Nil
  obtain w ws' where w: "ws = w # ws'" using assms(2) by (cases ws) auto
  have "m_house pw (w # ws' @ d # rest) = Some (Suc (length (ws' @ d # rest)))"
    using m_house_number[OF assms(2-5), of pw] by (simp add: w)
  then show ?case by (simp add: w)
next
  case (Cons c cs)
  have none: "m_house pw (c # cs @ ws @ d # rest) = None"
    using m_house_numberless[OF Cons.prems] by simp
  have "numberless cs" using Cons.prems by (cases cs) auto
  then show ?case using Cons.IH none by simp
qed

lemma street_only_before_number:
  assumes "numberless street" and "ws \<noteq> []" and "list_all is_space ws" and "is_digit d"
    and "CHR 0x0A \<notin> set rest"
  shows "street_only (street @ ws @ d # rest) = strip street"
  by (simp add: street_only_def re_sub_house[OF assms])

text \<open>
  C4, as amended: for an address, a \<open>str\<close>, that the cache does not satisfy, the calls the
  loop body makes are, in this order: Nominatim with the normalized full address; ArcGIS
  with it only if Nominatim returned nothing; and only if both returned nothing, Nominatim
  and then ArcGIS (the latter only if the former returned nothing) with the normalized
  street-only address. When the address is a street name without a number in it, whitespace, and a rest
  of the line that starts with a digit, the street-only address is the street name.
\<close>

theorem fallback_provider_order:
  assumes "\<not> cached_ok c (Text a)"
    and "geocode_step l city_hint cache_path a (c, s) = (c', s')"
  shows "(\<exists>trail. calls s' = calls s @ trail \<and>
            fallback_order (normalize_address (table l) a @ '', '' @ city_hint)
              (normalize_address (table l) (street_only a) @ '', '' @ city_hint) trail \<and>
            map_of c' (Text a) = Some (coords_of (snd (snd (last trail))))) \<and>
         (\<forall>street ws d rest.
            a = street @ ws @ d # rest \<and> numberless street \<and> ws \<noteq> [] \<and> list_all is_space ws \<and>
            is_digit d \<and> CHR 0x0A \<notin> set rest \<longrightarrow>
            street_only a = strip street)"
proof (rule conjI)
  show "\<exists>trail. calls s' = calls s @ trail \<and>
            fallback_order (normalize_address (table l) a @ '', '' @ city_hint)
              (normalize_address (table l) (street_only a) @ '', '' @ city_hint) trail \<and>
            map_of c' (Text a) = Some (coords_of (snd (snd (last trail))))"
    using step_lookup[OF assms(1), of l city_hint cache_path s] assms(2)
    by (auto simp: q_full_def q_street_def)
next
  show "\<forall>street ws d rest.
            a = street @ ws @ d # rest \<and> numberless street \<and> ws \<noteq> [] \<and> list_all is_space ws \<and>
            is_digit d \<and> CHR 0x0A \<notin> set rest \<longrightarrow>
            street_only a = strip street"
    using street_only_before_number by blast
qed

theorem fallback_provider_order_witness:
  "\<not> cached_ok (cache_of_rows sample_lib sample_cache_file) (Text ''Zielona 7'') \<and>
   (\<exists>c' s'. geocode_step sample_lib ''Lodz'' ''geocode_cache.csv'' ''Zielona 7''
               (cache_of_rows sample_lib sample_cache_file, sample_sys) = (c', s') \<and>
      (\<exists>trail. calls s' = calls sample_sys @ trail \<and>
         fallback_order (normalize_address (table sample_lib) ''Zielona 7'' @ '', '' @ ''Lodz'')
           (normalize_address (table sample_lib) (street_only ''Zielona 7'') @ '', '' @ ''Lodz'')
           trail \<and>
         map_of c' (Text ''Zielona 7'') = Some (coords_of (snd (snd (last trail)))))) \<and>
   ''Zielona 7'' = ''Zielona'' @ '' '' @ CHR ''7'' # [] \<and> numberless ''Zielona'' \<and>
   list_all is_space '' '' \<and> is_digit CHR ''7'' \<and>
   street_only ''Zielona 7'' = ''Zielona''"
proof -
  have h: "\<not> cached_ok (cache_of_rows sample_lib sample_cache_file) (Text ''Zielona 7'')"
    by code_simp
  obtain c' s' where st: "geocode_step sample_lib ''Lodz'' ''geocode_cache.csv'' ''Zielona 7''
               (cache_of_rows sample_lib sample_cache_file, sample_sys) = (c', s')"
    by (cases "geocode_step sample_lib ''Lodz'' ''geocode_cache.csv'' ''Zielona 7''
               (cache_of_rows sample_lib sample_cache_file, sample_sys)")
  note t = fallback_provider_order[OF h st]
  have sp: "''Zielona 7'' = ''Zielona'' @ '' '' @ CHR ''7'' # []" by simp
  have nm: "numberless ''Zielona''" by code_simp
  have ws: "list_all is_space '' ''" by code_simp
  have dg: "is_digit CHR ''7''" by code_simp
  have pre: "''Zielona 7'' = ''Zielona'' @ '' '' @ CHR ''7'' # [] \<and> numberless ''Zielona'' \<and>
      '' '' \<noteq> [] \<and> list_all is_space '' '' \<and> is_digit CHR ''7'' \<and> CHR 0x0A \<notin> set []"
    by (intro conjI sp nm ws dg) simp_all
  have "street_only ''Zielona 7'' = strip ''Zielona''"
    by (rule t[THEN conjunct2, rule_format, of "''Zielona''" "'' ''" "CHR ''7''" "[]", OF pre])
  moreover have "strip ''Zielona'' = ''Zielona''" by code_simp
  ultimately have so: "street_only ''Zielona 7'' = ''Zielona''" by simp
  have ex: "\<exists>c' s'. geocode_step sample_lib ''Lodz'' ''geocode_cache.csv'' ''Zielona 7''
               (cache_of_rows sample_lib sample_cache_file, sample_sys) = (c', s') \<and>
      (\<exists>trail. calls s' = calls sample_sys @ trail \<and>
         fallback_order (normalize_address (table sample_lib) ''Zielona 7'' @ '', '' @ ''Lodz'')
           (normalize_address (table sample_lib) (street_only ''Zielona 7'') @ '', '' @ ''Lodz'')
           trail \<and>
         map_of c' (Text ''Zielona 7'') = Some (coords_of (snd (snd (last trail)))))"
    by (rule exI[of _ c'], rule exI[of _ s'], rule conjI[OF st t[THEN conjunct1]])
  show ?thesis by (intro conjI h ex sp nm ws dg so)
qed

text \<open>
  C4 as stated fails where the street name has a number in it: the address
  \<open>al. 1 Maja 12\<close> ends with the house number \<open>12\<close>, but the street-only address is
  \<open>al.\<close>, not \<open>al. 1 Maja\<close>, and the retried queries are made with it.
\<close>

theorem street_only_counterexample:
  "street_only ''al. 1 Maja 12'' = ''al.'' \<and>
   street_only ''al. 1 Maja 12'' \<noteq> ''al. 1 Maja'' \<and>
   map (fst \<circ> snd)
     (calls (snd (geocode_step sample_lib ''Lodz'' ''geocode_cache.csv'' ''al. 1 Maja 12''
                    ([], sample_sys))))
     = [''al. 1 Maja 12, Lodz'', ''al. 1 Maja 12, Lodz'', ''al., Lodz'', ''al., Lodz'']"
  by code_simp

section \<open>Cached successes and cached failures\<close>

lemma load_cache_distinct: "distinct (map fst (fst (snd (load_cache l p s))))"
  by (auto simp: load_cache_def cache_of_rows_distinct split: option.splits file_content.splits)

lemma step_retry:
  assumes "\<not> cached_ok c (Text a)"
  shows "\<exists>c2 s2 rest. geocode_step l h p a (c, s) = (c2, s2) \<and>
           calls s2 = calls s @ (Nominatim, q_full l h a,
                                 fst (geocoder l Nominatim (q_full l h a) (world s))) # rest \<and>
           map_of c2 (Text a)
             = Some (case providers_answer l (q_full l h a) (q_street l h a) (world s) of
                       Some x \<Rightarrow> (latitude x, longitude x) | None \<Rightarrow> (NaN, NaN))"
proof -
  obtain loc s1 where lk: "lookup l h a s = (loc, s1)" by (cases "lookup l h a s")
  from lookup_first_call[of l h a s] obtain rest where
    r: "calls s1 = calls s @ (Nominatim, q_full l h a,
                              fst (geocoder l Nominatim (q_full l h a) (world s))) # rest"
    using lk by auto
  have loc: "loc = providers_answer l (q_full l h a) (q_street l h a) (world s)"
    using lookup_answer[of l h a s] lk by simp
  show ?thesis using assms lk r loc
    by (auto simp: geocode_step_def Let_def save_cache_calls update_conv' coords_of_def
             split: option.splits)
qed

text \<open>
  C9: when the loop of \<open>geocode_addresses\<close> comes to a cell \<open>k\<close> of the address column that
  the loaded cache holds with a latitude that is not NaN, the step changes nothing: the
  cache and the state are as they were before the step, so no provider is called, and the
  entry stays as loaded to the end. When \<open>k\<close> is a \<open>str\<close> that the loaded cache holds with
  latitude NaN, the step asks again: the first call it adds is Nominatim with the full
  query, answered by the service, and the entry becomes the coordinates of the first
  location that Nominatim and ArcGIS give for the full and then the street-only query, or
  \<open>(NaN, NaN)\<close> when all four give nothing; it stays so to the end.
\<close>

theorem cached_success_final_failure_retried:
  assumes "load_cache l cache_path s = (None, c0, s0)"
    and "unique (dropna l (map (cell address_col) (rows df))) = pre @ k # post"
    and "geocode_loop l city_hint cache_path pre (c0, s0) = (None, c1, s1)"
    and "map_of c0 k = Some (la, lo)"
  shows "(\<not> isna la \<longrightarrow>
            geocode_loop l city_hint cache_path (pre @ [k]) (c0, s0) = (None, c1, s1) \<and>
            map_of (fst (snd (geocode_loop l city_hint cache_path (pre @ k # post) (c0, s0)))) k
              = Some (la, lo)) \<and>
         (\<forall>a. isna la \<and> k = Text a \<longrightarrow>
            (\<exists>c2 s2 rest.
               geocode_loop l city_hint cache_path (pre @ [k]) (c0, s0) = (None, c2, s2) \<and>
               calls s2 = calls s1
                 @ (Nominatim, normalize_address (table l) a @ '', '' @ city_hint,
                    fst (geocoder l Nominatim (normalize_address (table l) a @ '', '' @ city_hint)
                           (world s1))) # rest) \<and>
            map_of (fst (snd (geocode_loop l city_hint cache_path (pre @ k # post) (c0, s0)))) k
              = Some (case providers_answer l
                             (normalize_address (table l) a @ '', '' @ city_hint)
                             (normalize_address (table l) (street_only a) @ '', '' @ city_hint)
                             (world s1) of
                        Some x \<Rightarrow> (latitude x, longitude x) | None \<Rightarrow> (NaN, NaN)))"
proof -
  let ?loop = "geocode_loop l city_hint cache_path"
  have d: "distinct (pre @ k # post)"
    using distinct_unique[of "dropna l (map (cell address_col) (rows df))"] assms(2) by simp
  then have npre: "k \<notin> set pre" and npost: "k \<notin> set post" by auto
  have m1: "map_of c1 k = Some (la, lo)"
    using loop_other[OF npre, of l city_hint cache_path "(c0, s0)"] assms(3,4) by simp
  have ok: "cached_ok c1 k = (\<not> isna la)" using m1 by (simp add: cached_ok_def)
  have split1: "?loop (pre @ [k]) (c0, s0) = ?loop [k] (c1, s1)"
    by (rule loop_prefix[OF assms(3)])
  have split2: "?loop (pre @ k # post) (c0, s0) = ?loop (k # post) (c1, s1)"
    by (rule loop_prefix[OF assms(3)])
  show ?thesis
  proof (intro conjI allI impI)
    assume "\<not> isna la"
    then have c: "cached_ok c1 k" using ok by simp
    have b: "loop_body l city_hint cache_path k (c1, s1) = Inr (c1, s1)"
      using c by (cases k) (simp_all add: loop_body_def step_cached)
    show "?loop (pre @ [k]) (c0, s0) = (None, c1, s1)"
      unfolding split1 using b by simp
    have "?loop (k # post) (c1, s1) = ?loop post (c1, s1)" using b by simp
    then show "map_of (fst (snd (?loop (pre @ k # post) (c0, s0)))) k = Some (la, lo)"
      unfolding split2 using loop_other[OF npost, of l city_hint cache_path "(c1, s1)"] m1 by simp
  next
    fix a
    assume h: "isna la \<and> k = Text a"
    then have nc: "\<not> cached_ok c1 (Text a)" using ok by simp
    from step_retry[OF nc, of l city_hint cache_path s1] obtain c2 s2 rest where
      st: "geocode_step l city_hint cache_path a (c1, s1) = (c2, s2)"
      and cl: "calls s2 = calls s1 @ (Nominatim, q_full l city_hint a,
                 fst (geocoder l Nominatim (q_full l city_hint a) (world s1))) # rest"
      and en: "map_of c2 (Text a)
             = Some (case providers_answer l (q_full l city_hint a) (q_street l city_hint a) (world s1) of
                       Some x \<Rightarrow> (latitude x, longitude x) | None \<Rightarrow> (NaN, NaN))"
      by blast
    have one: "?loop (pre @ [k]) (c0, s0) = (None, c2, s2)"
      unfolding split1 using h st by (simp add: body_text)
    show "\<exists>c2 s2 rest.
               ?loop (pre @ [k]) (c0, s0) = (None, c2, s2) \<and>
               calls s2 = calls s1
                 @ (Nominatim, normalize_address (table l) a @ '', '' @ city_hint,
                    fst (geocoder l Nominatim (normalize_address (table l) a @ '', '' @ city_hint)
                           (world s1))) # rest"
      using one cl unfolding q_full_def by blast
    have "?loop (k # post) (c1, s1) = ?loop post (c2, s2)" using h st by (simp add: body_text)
    then show "map_of (fst (snd (?loop (pre @ k # post) (c0, s0)))) k
              = Some (case providers_answer l
                             (normalize_address (table l) a @ '', '' @ city_hint)
                             (normalize_address (table l) (street_only a) @ '', '' @ city_hint)
                             (world s1) of
                        Some x \<Rightarrow> (latitude x, longitude x) | None \<Rightarrow> (NaN, NaN))"
      unfolding split2 using loop_other[OF npost, of l city_hint cache_path "(c2, s2)"] en h
      by (simp add: q_full_def q_street_def)
  qed
qed

lemma sample_load:
  "load_cache sample_lib ''geocode_cache.csv'' sample_sys
     = (None, sample_cache, sample_sys\<lparr>io := [Read ''geocode_cache.csv'']\<rparr>)"
proof -
  have "cache_of_rows sample_lib sample_cache_file = sample_cache" by code_simp
  then show ?thesis by (simp add: load_cache_def sample_sys_def)
qed

lemma sample_addresses:
  "unique (dropna sample_lib (map (cell Adres_punktu) (rows sample_df)))
     = [Text ''ul. Piotrkowska 104 lok. 3'', Text ''Zielona 7'', Text ''Nieznana 1'', Text ''Stara 2'']"
  by code_simp

theorem cached_success_final_failure_retried_witness:
  "\<exists>c1 s1 c2 s2.
     load_cache sample_lib ''geocode_cache.csv'' sample_sys
       = (None, sample_cache, sample_sys\<lparr>io := [Read ''geocode_cache.csv'']\<rparr>) \<and>
     unique (dropna sample_lib (map (cell Adres_punktu) (rows sample_df)))
       = [Text ''ul. Piotrkowska 104 lok. 3'', Text ''Zielona 7''] @ Text ''Nieznana 1'' # [Text ''Stara 2''] \<and>
     geocode_loop sample_lib ''Lodz'' ''geocode_cache.csv''
       [Text ''ul. Piotrkowska 104 lok. 3'', Text ''Zielona 7'']
       (sample_cache, sample_sys\<lparr>io := [Read ''geocode_cache.csv'']\<rparr>) = (None, c1, s1) \<and>
     map_of sample_cache (Text ''Nieznana 1'') = Some (NaN, NaN) \<and> isna NaN \<and>
     (\<exists>rest. geocode_loop sample_lib ''Lodz'' ''geocode_cache.csv''
         ([Text ''ul. Piotrkowska 104 lok. 3'', Text ''Zielona 7''] @ [Text ''Nieznana 1''])
         (sample_cache, sample_sys\<lparr>io := [Read ''geocode_cache.csv'']\<rparr>) = (None, c2, s2) \<and>
        calls s2 = calls s1 @ (Nominatim, ''Nieznana 1, Lodz'', None) # rest) \<and>
     geocode_loop sample_lib ''Lodz'' ''geocode_cache.csv''
       [Text ''ul. Piotrkowska 104 lok. 3'', Text ''Zielona 7'', Text ''Nieznana 1'']
       (sample_cache, sample_sys\<lparr>io := [Read ''geocode_cache.csv'']\<rparr>) = (None, c2, s2) \<and>
     map_of sample_cache (Text ''Stara 2'') = Some (Fin 50, Fin 18) \<and> \<not> isna (Fin 50) \<and>
     geocode_loop sample_lib ''Lodz'' ''geocode_cache.csv''
       ([Text ''ul. Piotrkowska 104 lok. 3'', Text ''Zielona 7'', Text ''Nieznana 1''] @ [Text ''Stara 2''])
       (sample_cache, sample_sys\<lparr>io := [Read ''geocode_cache.csv'']\<rparr>) = (None, c2, s2) \<and>
     map_of (fst (snd (geocode_loop sample_lib ''Lodz'' ''geocode_cache.csv''
       ([Text ''ul. Piotrkowska 104 lok. 3'', Text ''Zielona 7'', Text ''Nieznana 1''] @ Text ''Stara 2'' # [])
       (sample_cache, sample_sys\<lparr>io := [Read ''geocode_cache.csv'']\<rparr>)))) (Text ''Stara 2'')
       = Some (Fin 50, Fin 18)"
proof -
  let ?s0 = "sample_sys\<lparr>io := [Read ''geocode_cache.csv'']\<rparr>"
  let ?loop = "geocode_loop sample_lib ''Lodz'' ''geocode_cache.csv''"
  let ?p1 = "[Text ''ul. Piotrkowska 104 lok. 3'', Text ''Zielona 7'']"
  let ?p2 = "[Text ''ul. Piotrkowska 104 lok. 3'', Text ''Zielona 7'', Text ''Nieznana 1'']"
  have u1: "unique (dropna sample_lib (map (cell Adres_punktu) (rows sample_df)))
     = ?p1 @ Text ''Nieznana 1'' # [Text ''Stara 2'']"
    using sample_addresses by simp
  have u2: "unique (dropna sample_lib (map (cell Adres_punktu) (rows sample_df)))
     = ?p2 @ Text ''Stara 2'' # []"
    using sample_addresses by simp
  have "fst (?loop ?p1 (sample_cache, ?s0)) = None" by (rule loop_returns) simp
  then obtain c1 s1 where b1: "?loop ?p1 (sample_cache, ?s0) = (None, c1, s1)"
    by (cases "?loop ?p1 (sample_cache, ?s0)") auto
  have "fst (?loop ?p2 (sample_cache, ?s0)) = None" by (rule loop_returns) simp
  then obtain c2 s2 where b2: "?loop ?p2 (sample_cache, ?s0) = (None, c2, s2)"
    by (cases "?loop ?p2 (sample_cache, ?s0)") auto
  have m1: "map_of sample_cache (Text ''Nieznana 1'') = Some (NaN, NaN)"
    by (simp add: sample_cache_def)
  have m2: "map_of sample_cache (Text ''Stara 2'') = Some (Fin 50, Fin 18)"
    by (simp add: sample_cache_def)
  have i1: "isna NaN" and i2: "\<not> isna (Fin 50)" by (simp_all add: isna_def)
  note t1 = cached_success_final_failure_retried[OF sample_load u1 b1 m1]
  note t2 = cached_success_final_failure_retried[OF sample_load u2 b2 m2]
  have pre1: "isna NaN \<and> Text ''Nieznana 1'' = Text ''Nieznana 1''" using i1 by simp
  note r1 = t1[THEN conjunct2, rule_format, OF pre1, THEN conjunct1]
  note k2 = t2[THEN conjunct1, rule_format, OF i2]
  have q: "normalize_address (table sample_lib) ''Nieznana 1'' @ '', '' @ ''Lodz'' = ''Nieznana 1, Lodz''"
    by code_simp
  have g: "fst (geocoder sample_lib Nominatim ''Nieznana 1, Lodz'' w) = None" for w
    by (simp add: sample_lib_def sample_geocoder_def)
  have p12: "?p1 @ [Text ''Nieznana 1''] = ?p2" by simp
  from r1 obtain c2' s2' rest where
    a: "?loop (?p1 @ [Text ''Nieznana 1'']) (sample_cache, ?s0) = (None, c2', s2')"
    and b: "calls s2' = calls s1 @ (Nominatim, ''Nieznana 1, Lodz'', None) # rest"
    unfolding q g by blast
  have e: "c2' = c2" "s2' = s2" using a b2 unfolding p12 by simp_all
  have r: "\<exists>rest. ?loop (?p1 @ [Text ''Nieznana 1'']) (sample_cache, ?s0) = (None, c2, s2) \<and>
        calls s2 = calls s1 @ (Nominatim, ''Nieznana 1, Lodz'', None) # rest"
    using a b e by blast
  show ?thesis
    apply (rule exI[of _ c1], rule exI[of _ s1], rule exI[of _ c2], rule exI[of _ s2])
    apply (intro conjI sample_load u1 b1 m1 i1 r b2 m2 i2 k2[THEN conjunct1] k2[THEN conjunct2])
    done
qed

section \<open>The result of \<open>geocode_addresses\<close>\<close>

lemma load_cache_files:
  "files (snd (snd (load_cache l p s))) = files s \<and> calls (snd (snd (load_cache l p s))) = calls s \<and>
   world (snd (snd (load_cache l p s))) = world s"
  by (auto simp: load_cache_def split: option.splits file_content.splits)

lemma load_cache_io:
  "\<exists>evs. io (snd (snd (load_cache l p s))) = io s @ evs \<and> set evs \<subseteq> {Read p}"
  by (auto simp: load_cache_def split: option.splits file_content.splits)

lemma cell_update_lat: "cell ac (r\<lparr>lat := x\<rparr>) = cell ac r"
  by (cases ac) auto

lemma geocode_addresses_result:
  assumes "geocode_addresses l df ac h p s = (None, df', s')"
  obtains c0 s0 c s1 where "load_cache l p s = (None, c0, s0)"
    and "geocode_loop l h p (unique (dropna l (map (cell ac) (rows df)))) (c0, s0) = (None, c, s1)"
    and "s' = save_cache l c p s1"
    and "rows df' = map (\<lambda>r. r\<lparr>lat := fst (cache_get c (cell ac r)),
                               lon := snd (cache_get c (cell ac r))\<rparr>) (rows df)"
  using assms
  by (auto simp: geocode_addresses_def Let_def cell_update_lat
           split: option.splits prod.splits if_splits)

lemma geocode_addresses_returns:
  assumes "load_cache l p s = (None, c0, s0)"
    and "column_name ac \<in> set (columns df)"
    and "list_all (\<lambda>k. case k of Text a \<Rightarrow> True | Value v \<Rightarrow> False)
           (unique (dropna l (map (cell ac) (rows df))))"
  shows "\<exists>df' s'. geocode_addresses l df ac h p s = (None, df', s')"
proof -
  let ?r = "geocode_loop l h p (unique (dropna l (map (cell ac) (rows df)))) (c0, s0)"
  have "fst ?r = None" using assms(3) by (rule loop_returns)
  then obtain c s1 where "?r = (None, c, s1)" by (cases ?r) auto
  then show ?thesis using assms(1,2) by (simp add: geocode_addresses_def Let_def)
qed

lemma saved_rows:
  obtains rs where "files (save_cache l c p s1) p = Some (if c = [] then EmptyCsv else CacheCsv rs)"
    and "map (\<lambda>r. (csv_address r, csv_lat r, csv_lon r)) rs = map (\<lambda>e. (key_text l (fst e), snd e)) c"
proof -
  obtain rs w where cr: "cache_rows l c (world s1) = (rs, w)" by (cases "cache_rows l c (world s1)")
  have "files (save_cache l c p s1) p = Some (if c = [] then EmptyCsv else CacheCsv rs)"
    using cr by (simp add: save_cache_files)
  then show ?thesis using cache_rows_entries[OF cr] that by blast
qed

lemma single_entry:
  "distinct (map fst c) \<Longrightarrow> map_of c a = Some v \<Longrightarrow> map snd (filter (\<lambda>e. fst e = a) c) = [v]"
proof (induction c)
  case Nil
  then show ?case by simp
next
  case (Cons e c)
  show ?case
  proof (cases "fst e = a")
    case True
    then have "a \<notin> fst ` set c" using Cons.prems(1) by auto
    then have "filter (\<lambda>e. fst e = a) c = []"
      by (force simp: filter_empty_conv)
    then show ?thesis using True Cons.prems(2) by (cases e) auto
  next
    case False
    then show ?thesis using Cons by (cases e) auto
  qed
qed

lemma key_entry: "k \<in> fst ` set c \<Longrightarrow> (k, cache_get c k) \<in> set c"
proof -
  assume "k \<in> fst ` set c"
  then obtain v where v: "map_of c k = Some v"
    by (metis domD dom_map_of_conv_image_fst)
  then show ?thesis using map_of_SomeD[OF v] by (simp add: cache_get_def)
qed

lemma py_eq_or_missing: "isna x \<and> isna x \<or> py_eq x x"
  by (cases x) (simp_all add: isna_def)

lemma loop_cells:
  assumes "geocode_loop l h p (unique (dropna l (map (cell ac) (rows df)))) cs = (None, c, s1)"
    and "i < length (rows df)" and "\<not> is_null l (cell ac (rows df ! i))"
  shows "cell ac (rows df ! i) \<in> fst ` set c"
proof -
  have "cell ac (rows df ! i) \<in> set (map (cell ac) (rows df))"
    using assms(2) by (metis length_map nth_map nth_mem)
  then have "cell ac (rows df ! i) \<in> set (unique (dropna l (map (cell ac) (rows df))))"
    using assms(3) by (simp add: set_unique set_dropna)
  then show ?thesis using loop_keys[OF assms(1)] by simp
qed

text \<open>
  C3: two rows of the input with the same cell in the address column get the same \<open>lat\<close>
  and the same \<open>lon\<close> from \<open>geocode_addresses\<close>: in each of the two columns the two values
  are equal as Python compares floats, or both are NaN. Both pairs are what the cache, as
  the loop has left it, gives for the cell; when the cell is not missing, that cache has
  exactly one entry for it, with this pair.
\<close>

theorem same_address_same_coordinates:
  assumes "geocode_addresses l df address_col city_hint cache_path s = (None, df', s')"
    and "i < length (rows df)" and "j < length (rows df)"
    and "cell address_col (rows df ! i) = cell address_col (rows df ! j)"
  shows "(isna (lat (rows df' ! i)) \<and> isna (lat (rows df' ! j))
            \<or> py_eq (lat (rows df' ! i)) (lat (rows df' ! j))) \<and>
         (isna (lon (rows df' ! i)) \<and> isna (lon (rows df' ! j))
            \<or> py_eq (lon (rows df' ! i)) (lon (rows df' ! j))) \<and>
         (\<exists>c0 s0 c s1.
            load_cache l cache_path s = (None, c0, s0) \<and>
            geocode_loop l city_hint cache_path
              (unique (dropna l (map (cell address_col) (rows df)))) (c0, s0) = (None, c, s1) \<and>
            (lat (rows df' ! i), lon (rows df' ! i)) = cache_get c (cell address_col (rows df ! i)) \<and>
            (lat (rows df' ! j), lon (rows df' ! j)) = cache_get c (cell address_col (rows df ! i)) \<and>
            (\<not> is_null l (cell address_col (rows df ! i)) \<longrightarrow>
               map snd (filter (\<lambda>e. fst e = cell address_col (rows df ! i)) c)
                 = [(lat (rows df' ! i), lon (rows df' ! i))]))"
proof -
  let ?as = "unique (dropna l (map (cell address_col) (rows df)))"
  let ?k = "cell address_col (rows df ! i)"
  obtain c0 s0 c s1 where
    ld: "load_cache l cache_path s = (None, c0, s0)"
    and lp: "geocode_loop l city_hint cache_path ?as (c0, s0) = (None, c, s1)"
    and sv: "s' = save_cache l c cache_path s1"
    and rs: "rows df' = map (\<lambda>r. r\<lparr>lat := fst (cache_get c (cell address_col r)),
                               lon := snd (cache_get c (cell address_col r))\<rparr>) (rows df)"
    by (rule geocode_addresses_result[OF assms(1)])
  have pi: "(lat (rows df' ! i), lon (rows df' ! i)) = cache_get c ?k"
    using assms(2) by (simp add: rs)
  have pj: "(lat (rows df' ! j), lon (rows df' ! j)) = cache_get c ?k"
    using assms(3,4) by (simp add: rs)
  have "(lat (rows df' ! j), lon (rows df' ! j)) = (lat (rows df' ! i), lon (rows df' ! i))"
    unfolding pi pj by (rule refl)
  then have la: "lat (rows df' ! j) = lat (rows df' ! i)"
    and lo: "lon (rows df' ! j) = lon (rows df' ! i)"
    by simp_all
  have dc: "distinct (map fst c)"
    using loop_distinct[of "(c0, s0)" l city_hint cache_path ?as] load_cache_distinct[of l cache_path s]
      ld lp by simp
  have one: "map snd (filter (\<lambda>e. fst e = ?k) c) = [(lat (rows df' ! i), lon (rows df' ! i))]"
    if nn: "\<not> is_null l ?k"
  proof -
    have "?k \<in> fst ` set c" by (rule loop_cells[OF lp assms(2) nn])
    then obtain v where v: "map_of c ?k = Some v"
      by (metis domD dom_map_of_conv_image_fst)
    then have "cache_get c ?k = v" by (simp add: cache_get_def)
    then show ?thesis using single_entry[OF dc v] pi by simp
  qed
  have ex: "\<exists>c0 s0 c s1.
            load_cache l cache_path s = (None, c0, s0) \<and>
            geocode_loop l city_hint cache_path ?as (c0, s0) = (None, c, s1) \<and>
            (lat (rows df' ! i), lon (rows df' ! i)) = cache_get c ?k \<and>
            (lat (rows df' ! j), lon (rows df' ! j)) = cache_get c ?k \<and>
            (\<not> is_null l ?k \<longrightarrow>
               map snd (filter (\<lambda>e. fst e = ?k) c) = [(lat (rows df' ! i), lon (rows df' ! i))])"
    apply (rule exI[of _ c0], rule exI[of _ s0], rule exI[of _ c], rule exI[of _ s1])
    apply (intro conjI impI ld lp pi pj one)
    apply assumption
    done
  have c1: "isna (lat (rows df' ! i)) \<and> isna (lat (rows df' ! j))
            \<or> py_eq (lat (rows df' ! i)) (lat (rows df' ! j))"
    unfolding la by (rule py_eq_or_missing)
  have c2: "isna (lon (rows df' ! i)) \<and> isna (lon (rows df' ! j))
            \<or> py_eq (lon (rows df' ! i)) (lon (rows df' ! j))"
    unfolding lo by (rule py_eq_or_missing)
  show ?thesis by (intro conjI c1 c2 ex)
qed

lemma sample_text_addresses:
  "list_all (\<lambda>k. case k of Text a \<Rightarrow> True | Value v \<Rightarrow> False)
     (unique (dropna sample_lib (map (cell Adres_punktu) (rows sample_df))))"
  unfolding sample_addresses by simp

lemma sample_returns:
  "\<exists>df' s'. geocode_addresses sample_lib sample_df Adres_punktu ''Lodz'' ''geocode_cache.csv'' sample_sys
       = (None, df', s')"
proof -
  have "column_name Adres_punktu \<in> set (columns sample_df)" by (simp add: sample_df_def)
  then show ?thesis by (rule geocode_addresses_returns[OF sample_load _ sample_text_addresses])
qed

theorem same_address_same_coordinates_witness:
  "\<exists>df' s' (c :: sample_value cache).
     geocode_addresses sample_lib sample_df Adres_punktu ''Lodz'' ''geocode_cache.csv'' sample_sys
       = (None, df', s') \<and>
     1 < length (rows sample_df) \<and> 6 < length (rows sample_df) \<and>
     cell Adres_punktu (rows sample_df ! 1) = Text ''Zielona 7'' \<and>
     cell Adres_punktu (rows sample_df ! 6) = Text ''Zielona 7'' \<and>
     (isna (lat (rows df' ! 1)) \<and> isna (lat (rows df' ! 6))
        \<or> py_eq (lat (rows df' ! 1)) (lat (rows df' ! 6))) \<and>
     (isna (lon (rows df' ! 1)) \<and> isna (lon (rows df' ! 6))
        \<or> py_eq (lon (rows df' ! 1)) (lon (rows df' ! 6))) \<and>
     (lat (rows df' ! 1), lon (rows df' ! 1)) = cache_get c (Text ''Zielona 7'') \<and>
     (lat (rows df' ! 6), lon (rows df' ! 6)) = cache_get c (Text ''Zielona 7'') \<and>
     map snd (filter (\<lambda>e. fst e = Text ''Zielona 7'') c) = [(lat (rows df' ! 1), lon (rows df' ! 1))]"
proof -
  from sample_returns obtain df' s' where
    run: "geocode_addresses sample_lib sample_df Adres_punktu ''Lodz'' ''geocode_cache.csv'' sample_sys
       = (None, df', s')" by blast
  have i: "1 < length (rows sample_df)" and j: "6 < length (rows sample_df)"
    by (simp_all add: sample_df_def)
  have a1: "cell Adres_punktu (rows sample_df ! 1) = Text ''Zielona 7''"
    and a6: "cell Adres_punktu (rows sample_df ! 6) = Text ''Zielona 7''"
    by (simp_all add: sample_df_def sample_row_def)
  have same: "cell Adres_punktu (rows sample_df ! 1) = cell Adres_punktu (rows sample_df ! 6)"
    unfolding a1 a6 by (rule refl)
  have nn: "\<not> is_null sample_lib (Text ''Zielona 7'')" by (simp add: is_null_def)
  note t = same_address_same_coordinates[OF run i j same, unfolded a1]
  from t[THEN conjunct2, THEN conjunct2] obtain c0 s0 c s1 where
    x: "load_cache sample_lib ''geocode_cache.csv'' sample_sys = (None, c0, s0) \<and>
        geocode_loop sample_lib ''Lodz'' ''geocode_cache.csv''
          (unique (dropna sample_lib (map (cell Adres_punktu) (rows sample_df)))) (c0, s0)
          = (None, c, s1) \<and>
        (lat (rows df' ! 1), lon (rows df' ! 1)) = cache_get c (Text ''Zielona 7'') \<and>
        (lat (rows df' ! 6), lon (rows df' ! 6)) = cache_get c (Text ''Zielona 7'') \<and>
        (\<not> is_null sample_lib (Text ''Zielona 7'') \<longrightarrow>
           map snd (filter (\<lambda>e. fst e = Text ''Zielona 7'') c)
             = [(lat (rows df' ! 1), lon (rows df' ! 1))])"
    by (elim exE) (rule that)
  note p1 = x[THEN conjunct2, THEN conjunct2, THEN conjunct1]
  note p6 = x[THEN conjunct2, THEN conjunct2, THEN conjunct2, THEN conjunct1]
  note im = x[THEN conjunct2, THEN conjunct2, THEN conjunct2, THEN conjunct2]
  have one: "map snd (filter (\<lambda>e. fst e = Text ''Zielona 7'') c)
                 = [(lat (rows df' ! 1), lon (rows df' ! 1))]"
    by (rule im[rule_format, OF nn])
  show ?thesis
    apply (rule exI[of _ df'], rule exI[of _ s'], rule exI[of _ c])
    apply (intro conjI run i j a1 a6 t[THEN conjunct1] t[THEN conjunct2, THEN conjunct1] p1 p6 one)
    done
qed

section \<open>The files a run changes\<close>

lemma geocode_addresses_frame:
  assumes "q \<noteq> p"
  shows "files (snd (snd (geocode_addresses l df ac h p s))) q = files s q"
proof -
  let ?as = "unique (dropna l (map (cell ac) (rows df)))"
  obtain e0 c0 s0 where ld: "load_cache l p s = (e0, c0, s0)" by (cases "load_cache l p s")
  have f0: "files s0 = files s" using load_cache_files[of l p s] ld by simp
  show ?thesis
  proof (cases e0)
    case (Some e)
    then show ?thesis using ld f0 by (simp add: geocode_addresses_def)
  next
    case None
    obtain e1 c s1 where lp: "geocode_loop l h p ?as (c0, s0) = (e1, c, s1)"
      by (cases "geocode_loop l h p ?as (c0, s0)")
    have f1: "files s1 q = files s q"
      using loop_files_other[OF assms, of l h ?as "(c0, s0)"] lp f0 by simp
    show ?thesis
    proof (cases "column_name ac \<in> set (columns df)")
      case False
      then show ?thesis using ld None f0 by (simp add: geocode_addresses_def)
    next
      case True
      show ?thesis
      proof (cases e1)
        case (Some e)
        then show ?thesis using ld None True lp f1 by (simp add: geocode_addresses_def)
      next
        case n: None
        then show ?thesis using ld None True lp f1 assms
          by (simp add: geocode_addresses_def Let_def save_cache_files)
      qed
    qed
  qed
qed

lemma build_map_frame:
  "q \<noteq> out \<Longrightarrow> files (snd (build_map l pts osd nc st out s)) q = files s q"
  by (auto simp: build_map_def Let_def split: option.splits sum.splits)

lemma build_map_log:
  "calls (snd (build_map l pts osd nc st out s)) = calls s \<and>
   world (snd (build_map l pts osd nc st out s)) = world s \<and>
   (\<exists>evs. io (snd (build_map l pts osd nc st out s)) = io s @ evs \<and> set evs \<subseteq> {Write out})"
  by (auto simp: build_map_def Let_def split: option.splits sum.splits)

lemma main_cases:
  obtains e df1 s1 where "''lat'' \<notin> set (columns df) \<or> ''lon'' \<notin> set (columns df)"
    and "geocode_addresses l df Adres_punktu city p s = (Some e, df1, s1)"
    and "main l city df osd nc p out s = (Some e, s1)"
  | df1 s1 where "''lat'' \<notin> set (columns df) \<or> ''lon'' \<notin> set (columns df)"
    and "geocode_addresses l df Adres_punktu city p s = (None, df1, s1)"
    and "main l city df osd nc p out s
           = build_map l (spatial_join l (to_gdf df1) osd nc) osd nc
               (map_start l (spatial_join l (to_gdf df1) osd nc)) out s1"
  | "''lat'' \<in> set (columns df)" and "''lon'' \<in> set (columns df)"
    and "main l city df osd nc p out s
           = build_map l (spatial_join l (to_gdf df) osd nc) osd nc
               (map_start l (spatial_join l (to_gdf df) osd nc)) out s"
proof (cases "''lat'' \<notin> set (columns df) \<or> ''lon'' \<notin> set (columns df)")
  case True
  obtain e df1 s1 where g: "geocode_addresses l df Adres_punktu city p s = (e, df1, s1)"
    by (cases "geocode_addresses l df Adres_punktu city p s")
  show ?thesis
  proof (cases e)
    case None
    have "main l city df osd nc p out s
           = build_map l (spatial_join l (to_gdf df1) osd nc) osd nc
               (map_start l (spatial_join l (to_gdf df1) osd nc)) out s1"
      unfolding main_def using True g None by (simp add: Let_def)
    then show ?thesis using True g None that(2) by simp
  next
    case (Some x)
    have "main l city df osd nc p out s = (Some x, s1)"
      unfolding main_def using True g Some by simp
    then show ?thesis using True g Some that(1) by simp
  qed
next
  case False
  then have "main l city df osd nc p out s
           = build_map l (spatial_join l (to_gdf df) osd nc) osd nc
               (map_start l (spatial_join l (to_gdf df) osd nc)) out s"
    unfolding main_def by (simp add: Let_def)
  then show ?thesis using False that(3) by simp
qed

lemma main_frame:
  assumes "q \<noteq> p" and "q \<noteq> out"
  shows "files (snd (main l city df osd nc p out s)) q = files s q"
proof (cases rule: main_cases[of df l city p s osd nc out])
  case (1 e df1 s1)
  then show ?thesis using geocode_addresses_frame[OF assms(1), of l df Adres_punktu city s] by simp
next
  case (2 df1 s1)
  then show ?thesis
    using geocode_addresses_frame[OF assms(1), of l df Adres_punktu city s]
      build_map_frame[OF assms(2), of l "spatial_join l (to_gdf df1) osd nc" osd nc
        "map_start l (spatial_join l (to_gdf df1) osd nc)" s1] by simp
next
  case 3
  then show ?thesis
    using build_map_frame[OF assms(2), of l "spatial_join l (to_gdf df) osd nc" osd nc
        "map_start l (spatial_join l (to_gdf df) osd nc)" s] by simp
qed

text \<open>
  C6: when \<open>geocode_addresses\<close> returns, the file at the cache path holds one row for every
  entry of the cache as the loop has left it, in the cache's order: the row has the text of
  the entry's key (the address itself when the key is a \<open>str\<close>), and the entry's latitude
  and longitude. No key has two entries. Every cell of the input's address column that is
  not missing is a key of the cache, and the file has the row with its text and its
  coordinates. For a cache without entries the file has no rows, and no header either. No
  file at another path has changed. A run of \<open>main\<close>, however it ends, changes no file
  besides the one at the cache path and the one at the output path.
\<close>

theorem cache_file_is_only_side_effect:
  "(\<forall>df' s'. geocode_addresses l df address_col city_hint cache_path s = (None, df', s') \<longrightarrow>
      (\<exists>c0 s0 c s1 rs.
         load_cache l cache_path s = (None, c0, s0) \<and>
         geocode_loop l city_hint cache_path
           (unique (dropna l (map (cell address_col) (rows df)))) (c0, s0) = (None, c, s1) \<and>
         files s' cache_path = Some (if c = [] then EmptyCsv else CacheCsv rs) \<and>
         map (\<lambda>r. (csv_address r, csv_lat r, csv_lon r)) rs
           = map (\<lambda>e. (key_text l (fst e), snd e)) c \<and>
         distinct (map fst c) \<and>
         (\<forall>k \<in> set (map (cell address_col) (rows df)). \<not> is_null l k \<longrightarrow>
            k \<in> fst ` set c \<and>
            (key_text l k, cache_get c k)
              \<in> set (map (\<lambda>r. (csv_address r, csv_lat r, csv_lon r)) rs))) \<and>
      (\<forall>q. q \<noteq> cache_path \<longrightarrow> files s' q = files s q)) \<and>
   (\<forall>q. q \<noteq> cache_path \<and> q \<noteq> out_path \<longrightarrow>
      files (snd (main l city df osd name_col cache_path out_path s)) q = files s q)"
proof (intro conjI allI impI)
  fix df' s'
  assume run: "geocode_addresses l df address_col city_hint cache_path s = (None, df', s')"
  let ?as = "unique (dropna l (map (cell address_col) (rows df)))"
  obtain c0 s0 c s1 where
    ld: "load_cache l cache_path s = (None, c0, s0)"
    and lp: "geocode_loop l city_hint cache_path ?as (c0, s0) = (None, c, s1)"
    and s': "s' = save_cache l c cache_path s1"
    and rws: "rows df' = map (\<lambda>r. r\<lparr>lat := fst (cache_get c (cell address_col r)),
                               lon := snd (cache_get c (cell address_col r))\<rparr>) (rows df)"
    by (rule geocode_addresses_result[OF run])
  obtain rs where
    f: "files s' cache_path = Some (if c = [] then EmptyCsv else CacheCsv rs)"
    and e: "map (\<lambda>r. (csv_address r, csv_lat r, csv_lon r)) rs
              = map (\<lambda>e. (key_text l (fst e), snd e)) c"
    unfolding s' by (rule saved_rows)
  have d: "distinct (map fst c)"
    using loop_distinct[of "(c0, s0)" l city_hint cache_path ?as]
      load_cache_distinct[of l cache_path s] ld lp by simp
  have keys: "fst ` set c = fst ` set c0 \<union> set ?as" using loop_keys[OF lp] by simp
  have all: "\<forall>k \<in> set (map (cell address_col) (rows df)). \<not> is_null l k \<longrightarrow>
            k \<in> fst ` set c \<and>
            (key_text l k, cache_get c k)
              \<in> set (map (\<lambda>r. (csv_address r, csv_lat r, csv_lon r)) rs)"
  proof (intro ballI impI)
    fix k assume k: "k \<in> set (map (cell address_col) (rows df))" and nn: "\<not> is_null l k"
    have kc: "k \<in> fst ` set c" using k nn unfolding keys by (simp add: set_unique set_dropna)
    have "(k, cache_get c k) \<in> set c" by (rule key_entry[OF kc])
    then have "(\<lambda>e. (key_text l (fst e), snd e)) (k, cache_get c k)
                 \<in> set (map (\<lambda>e. (key_text l (fst e), snd e)) c)"
      unfolding set_map by (rule imageI)
    then have "(key_text l k, cache_get c k)
              \<in> set (map (\<lambda>r. (csv_address r, csv_lat r, csv_lon r)) rs)"
      unfolding e by simp
    then show "k \<in> fst ` set c \<and>
            (key_text l k, cache_get c k)
              \<in> set (map (\<lambda>r. (csv_address r, csv_lat r, csv_lon r)) rs)"
      using kc by simp
  qed
  show "\<exists>c0 s0 c s1 rs.
         load_cache l cache_path s = (None, c0, s0) \<and>
         geocode_loop l city_hint cache_path ?as (c0, s0) = (None, c, s1) \<and>
         files s' cache_path = Some (if c = [] then EmptyCsv else CacheCsv rs) \<and>
         map (\<lambda>r. (csv_address r, csv_lat r, csv_lon r)) rs
           = map (\<lambda>e. (key_text l (fst e), snd e)) c \<and>
         distinct (map fst c) \<and>
         (\<forall>k \<in> set (map (cell address_col) (rows df)). \<not> is_null l k \<longrightarrow>
            k \<in> fst ` set c \<and>
            (key_text l k, cache_get c k)
              \<in> set (map (\<lambda>r. (csv_address r, csv_lat r, csv_lon r)) rs))"
    apply (rule exI[of _ c0], rule exI[of _ s0], rule exI[of _ c], rule exI[of _ s1],
           rule exI[of _ rs])
    apply (intro conjI ld lp f e d all)
    done
next
  fix df' s' q
  assume run: "geocode_addresses l df address_col city_hint cache_path s = (None, df', s')"
    and q: "q \<noteq> cache_path"
  show "files s' q = files s q"
    using geocode_addresses_frame[OF q, of l df address_col city_hint s] run by simp
next
  fix q
  assume "q \<noteq> cache_path \<and> q \<noteq> out_path"
  then show "files (snd (main l city df osd name_col cache_path out_path s)) q = files s q"
    using main_frame by blast
qed

theorem cache_file_is_only_side_effect_witness:
  "\<exists>df' s' (c :: sample_value cache) rs.
     geocode_addresses sample_lib sample_df Adres_punktu ''Lodz'' ''geocode_cache.csv'' sample_sys
       = (None, df', s') \<and>
     files s' ''geocode_cache.csv'' = Some (if c = [] then EmptyCsv else CacheCsv rs) \<and>
     map (\<lambda>r. (csv_address r, csv_lat r, csv_lon r)) rs
       = map (\<lambda>e. (key_text sample_lib (fst e), snd e)) c \<and>
     distinct (map fst c) \<and>
     Text ''Zielona 7'' \<in> set (map (cell Adres_punktu) (rows sample_df)) \<and>
     \<not> is_null sample_lib (Text ''Zielona 7'') \<and>
     Text ''Zielona 7'' \<in> fst ` set c \<and>
     (''Zielona 7'', cache_get c (Text ''Zielona 7''))
       \<in> set (map (\<lambda>r. (csv_address r, csv_lat r, csv_lon r)) rs) \<and>
     ''mapa_v6.html'' \<noteq> ''geocode_cache.csv'' \<and>
     files s' ''mapa_v6.html'' = files sample_sys ''mapa_v6.html'' \<and>
     files (snd (main sample_lib ''Lodz'' sample_df sample_osd (\<lambda>p. Some (fst p))
                   ''geocode_cache.csv'' ''mapa_v6.html'' sample_sys)) ''lista_koncesji.xlsx''
       = files sample_sys ''lista_koncesji.xlsx''"
proof -
  from sample_returns obtain df' s' where
    run: "geocode_addresses sample_lib sample_df Adres_punktu ''Lodz'' ''geocode_cache.csv'' sample_sys
       = (None, df', s')" by (elim exE)
  have a: "Text ''Zielona 7'' \<in> set (map (cell Adres_punktu) (rows sample_df))"
    by (simp add: sample_df_def sample_row_def)
  have nn: "\<not> is_null sample_lib (Text ''Zielona 7'')" by (simp add: is_null_def)
  have n1: "''mapa_v6.html'' \<noteq> ''geocode_cache.csv''" by simp
  have n2: "''lista_koncesji.xlsx'' \<noteq> ''geocode_cache.csv'' \<and> ''lista_koncesji.xlsx'' \<noteq> ''mapa_v6.html''"
    by simp
  note t = cache_file_is_only_side_effect[of sample_lib sample_df Adres_punktu "''Lodz''"
      "''geocode_cache.csv''" sample_sys "''mapa_v6.html''" "''Lodz''" sample_osd "\<lambda>p. Some (fst p)"]
  note g = t[THEN conjunct1, rule_format, OF run]
  note frame_part = g[THEN conjunct2, rule_format, OF n1]
  note main_part = t[THEN conjunct2, rule_format, OF n2]
  from g[THEN conjunct1] obtain c0 s0 c s1 rs where
    r: "load_cache sample_lib ''geocode_cache.csv'' sample_sys = (None, c0, s0) \<and>
         geocode_loop sample_lib ''Lodz'' ''geocode_cache.csv''
           (unique (dropna sample_lib (map (cell Adres_punktu) (rows sample_df)))) (c0, s0)
           = (None, c, s1) \<and>
         files s' ''geocode_cache.csv'' = Some (if c = [] then EmptyCsv else CacheCsv rs) \<and>
         map (\<lambda>r. (csv_address r, csv_lat r, csv_lon r)) rs
           = map (\<lambda>e. (key_text sample_lib (fst e), snd e)) c \<and>
         distinct (map fst c) \<and>
         (\<forall>k \<in> set (map (cell Adres_punktu) (rows sample_df)). \<not> is_null sample_lib k \<longrightarrow>
            k \<in> fst ` set c \<and>
            (key_text sample_lib k, cache_get c k)
              \<in> set (map (\<lambda>r. (csv_address r, csv_lat r, csv_lon r)) rs))"
    by (elim exE) (rule that)
  note r3 = r[THEN conjunct2, THEN conjunct2, THEN conjunct1]
  note r4 = r[THEN conjunct2, THEN conjunct2, THEN conjunct2, THEN conjunct1]
  note r5 = r[THEN conjunct2, THEN conjunct2, THEN conjunct2, THEN conjunct2, THEN conjunct1]
  note r6 = r[THEN conjunct2, THEN conjunct2, THEN conjunct2, THEN conjunct2, THEN conjunct2,
      THEN bspec, OF a, rule_format, OF nn]
  have kt: "key_text sample_lib (Text ''Zielona 7'') = ''Zielona 7''" by (simp add: key_text_def)
  show ?thesis
    apply (rule exI[of _ df'], rule exI[of _ s'], rule exI[of _ c], rule exI[of _ rs])
    apply (intro conjI run r3 r4 r5 a nn r6[THEN conjunct1] r6[THEN conjunct2, unfolded kt]
             n1 frame_part main_part)
    done
qed

section \<open>Failed lookups\<close>

lemma lookup_fails_calls:
  assumes "fst (lookup l h a s) = None"
  shows "calls (snd (lookup l h a s))
           = calls s @ [(Nominatim, q_full l h a, None), (ArcGIS, q_full l h a, None),
                        (Nominatim, q_street l h a, None), (ArcGIS, q_street l h a, None)]"
proof -
  obtain loc s' where lk: "lookup l h a s = (loc, s')" by (cases "lookup l h a s")
  then have "loc = None" using assms by simp
  then show ?thesis using lk
    by (auto simp: lookup_def split: prod.splits option.splits dest!: osm_or_arc_effect)
qed

lemma step_fails:
  assumes "\<not> cached_ok c (Text a)"
    and "providers_answer l (q_full l h a) (q_street l h a) (world s) = None"
  shows "\<exists>c2 s2. geocode_step l h p a (c, s) = (c2, s2) \<and>
           calls s2 = calls s @ [(Nominatim, q_full l h a, None), (ArcGIS, q_full l h a, None),
                                 (Nominatim, q_street l h a, None), (ArcGIS, q_street l h a, None)] \<and>
           map_of c2 (Text a) = Some (NaN, NaN)"
proof -
  obtain loc s1 where lk: "lookup l h a s = (loc, s1)" by (cases "lookup l h a s")
  have fl: "fst (lookup l h a s) = None" using lookup_answer[of l h a s] assms(2) by simp
  then have loc: "loc = None" using lk by simp
  have cl: "calls s1 = calls s @ [(Nominatim, q_full l h a, None), (ArcGIS, q_full l h a, None),
                                  (Nominatim, q_street l h a, None), (ArcGIS, q_street l h a, None)]"
    using lookup_fails_calls[OF fl] lk by simp
  show ?thesis using assms(1) lk loc cl
    by (simp add: geocode_step_def Let_def save_cache_calls update_conv' coords_of_def)
qed

lemma to_gdf_filter:
  "to_gdf df = map (\<lambda>r. \<lparr>src = r, geometry = (lon r, lat r)\<rparr>)
                 (filter (\<lambda>r. \<not> (isna (lon r) \<or> isna (lat r))) (rows df))"
proof -
  have "List.map_filter
       (\<lambda>r. if \<not> (isna (lon r) \<or> isna (lat r))
            then Some \<lparr>src = r, geometry = (lon r, lat r)\<rparr> else None) rs
        = map (\<lambda>r. \<lparr>src = r, geometry = (lon r, lat r)\<rparr>)
            (filter (\<lambda>r. \<not> (isna (lon r) \<or> isna (lat r))) rs)" for rs :: "'a row list"
    by (induction rs) (auto simp: List.map_filter_simps)
  then show ?thesis by (simp add: to_gdf_def)
qed

lemma to_gdf_src:
  "map src (to_gdf df) = filter (\<lambda>r. \<not> (isna (lon r) \<or> isna (lat r))) (rows df)"
  by (simp add: to_gdf_filter comp_def)

lemma to_gdf_geometry: "g \<in> set (to_gdf df) \<Longrightarrow> geometry g = (lon (src g), lat (src g))"
  by (auto simp: to_gdf_filter)

lemma spatial_join_points: "pt ` set (spatial_join l pts polys nc) = set pts"
proof (induction pts)
  case Nil
  then show ?case by (simp add: spatial_join_def)
next
  case (Cons p pts)
  have "pt ` set (case filter (within_poly l (geometry p)) polys of
                         [] \<Rightarrow> [\<lparr>pt = p, osiedle = None\<rparr>]
                       | hs \<Rightarrow> map (\<lambda>h. \<lparr>pt = p, osiedle = nc h\<rparr>) hs) = {p}"
    by (cases "filter (within_poly l (geometry p)) polys") auto
  then show ?case using Cons by (simp add: spatial_join_def image_Un)
qed

lemma main_geocoded:
  assumes "''lat'' \<notin> set (columns df) \<or> ''lon'' \<notin> set (columns df)"
    and "geocode_addresses l df Adres_punktu city p s = (None, df1, s1)"
  shows "main l city df osd nc p out s
           = build_map l (spatial_join l (to_gdf df1) osd nc) osd nc
               (map_start l (spatial_join l (to_gdf df1) osd nc)) out s1"
  using assms unfolding main_def by (simp add: Let_def)

text \<open>
  C1: take an address of the input, a \<open>str\<close>, that the loaded cache does not satisfy and for
  which, when the loop comes to it, no provider returns a location: Nominatim and ArcGIS,
  asked with the full and then with the street-only query, all give nothing. Then the step
  makes these four calls, raises nothing and stores \<open>(NaN, NaN)\<close>; when
  \<open>geocode_addresses\<close> returns, the cache holds \<open>(NaN, NaN)\<close> for the address, the saved
  file has the row of the address with NaN and NaN, and every row with this address has
  \<open>lat = NaN\<close> and \<open>lon = NaN\<close>. \<open>to_gdf\<close> keeps exactly the rows in which neither
  coordinate is NaN, so these rows are not among its points; the spatial join keeps exactly
  the points of \<open>to_gdf\<close>; and \<open>main\<close> hands the joined rows, and nothing else, to
  \<open>build_map\<close>.
\<close>

theorem failed_lookup_missing_and_dropped:
  assumes run: "geocode_addresses l df address_col city_hint cache_path s = (None, df', s')"
    and ld: "load_cache l cache_path s = (None, c0, s0)"
    and order: "unique (dropna l (map (cell address_col) (rows df))) = pre @ Text a # post"
    and before: "geocode_loop l city_hint cache_path pre (c0, s0) = (None, c1, s1)"
    and unsat: "\<not> cached_ok c0 (Text a)"
    and fails: "providers_answer l (normalize_address (table l) a @ '', '' @ city_hint)
                  (normalize_address (table l) (street_only a) @ '', '' @ city_hint) (world s1) = None"
  shows "(\<exists>c2 s2.
            geocode_loop l city_hint cache_path (pre @ [Text a]) (c0, s0) = (None, c2, s2) \<and>
            calls s2 = calls s1
              @ [(Nominatim, normalize_address (table l) a @ '', '' @ city_hint, None),
                 (ArcGIS, normalize_address (table l) a @ '', '' @ city_hint, None),
                 (Nominatim, normalize_address (table l) (street_only a) @ '', '' @ city_hint, None),
                 (ArcGIS, normalize_address (table l) (street_only a) @ '', '' @ city_hint, None)] \<and>
            map_of c2 (Text a) = Some (NaN, NaN)) \<and>
         (\<exists>c s3 rs.
            geocode_loop l city_hint cache_path (pre @ Text a # post) (c0, s0) = (None, c, s3) \<and>
            map_of c (Text a) = Some (NaN, NaN) \<and>
            files s' cache_path = Some (CacheCsv rs) \<and>
            (a, NaN, NaN) \<in> set (map (\<lambda>r. (csv_address r, csv_lat r, csv_lon r)) rs)) \<and>
         (\<forall>i<length (rows df). cell address_col (rows df ! i) = Text a \<longrightarrow>
            lat (rows df' ! i) = NaN \<and> lon (rows df' ! i) = NaN \<and>
            rows df' ! i \<notin> src ` set (to_gdf df')) \<and>
         map src (to_gdf df') = filter (\<lambda>r. \<not> (isna (lon r) \<or> isna (lat r))) (rows df') \<and>
         pt ` set (spatial_join l (to_gdf df') polys name_col) = set (to_gdf df') \<and>
         (address_col = Adres_punktu \<and> (''lat'' \<notin> set (columns df) \<or> ''lon'' \<notin> set (columns df)) \<longrightarrow>
            main l city_hint df polys name_col cache_path out_path s
              = build_map l (spatial_join l (to_gdf df') polys name_col) polys name_col
                  (map_start l (spatial_join l (to_gdf df') polys name_col)) out_path s')"
proof -
  let ?as = "unique (dropna l (map (cell address_col) (rows df)))"
  let ?loop = "geocode_loop l city_hint cache_path"
  have d: "distinct (pre @ Text a # post)"
    using distinct_unique[of "dropna l (map (cell address_col) (rows df))"] order by simp
  then have npre: "Text a \<notin> set pre" and npost: "Text a \<notin> set post" by auto
  have "map_of c1 (Text a) = map_of c0 (Text a)"
    using loop_other[OF npre, of l city_hint cache_path "(c0, s0)"] before by simp
  then have un1: "\<not> cached_ok c1 (Text a)" using unsat by (simp add: cached_ok_def)
  have fl: "providers_answer l (q_full l city_hint a) (q_street l city_hint a) (world s1) = None"
    using fails by (simp add: q_full_def q_street_def)
  from step_fails[OF un1 fl, of cache_path] obtain c2 s2 where
    st: "geocode_step l city_hint cache_path a (c1, s1) = (c2, s2)"
    and cl: "calls s2 = calls s1
              @ [(Nominatim, q_full l city_hint a, None), (ArcGIS, q_full l city_hint a, None),
                 (Nominatim, q_street l city_hint a, None), (ArcGIS, q_street l city_hint a, None)]"
    and en: "map_of c2 (Text a) = Some (NaN, NaN)"
    by (elim exE conjE)
  have one: "?loop (pre @ [Text a]) (c0, s0) = (None, c2, s2)"
    unfolding loop_prefix[OF before] using st by (simp add: body_text)
  have k1: "\<exists>c2 s2.
            ?loop (pre @ [Text a]) (c0, s0) = (None, c2, s2) \<and>
            calls s2 = calls s1
              @ [(Nominatim, normalize_address (table l) a @ '', '' @ city_hint, None),
                 (ArcGIS, normalize_address (table l) a @ '', '' @ city_hint, None),
                 (Nominatim, normalize_address (table l) (street_only a) @ '', '' @ city_hint, None),
                 (ArcGIS, normalize_address (table l) (street_only a) @ '', '' @ city_hint, None)] \<and>
            map_of c2 (Text a) = Some (NaN, NaN)"
    apply (rule exI[of _ c2], rule exI[of _ s2])
    apply (intro conjI one en)
    apply (rule cl[unfolded q_full_def q_street_def])
    done
  obtain c0' s0' c s3 where
    ld': "load_cache l cache_path s = (None, c0', s0')"
    and lp': "?loop ?as (c0', s0') = (None, c, s3)"
    and s': "s' = save_cache l c cache_path s3"
    and rs: "rows df' = map (\<lambda>r. r\<lparr>lat := fst (cache_get c (cell address_col r)),
                               lon := snd (cache_get c (cell address_col r))\<rparr>) (rows df)"
    by (rule geocode_addresses_result[OF run])
  have same: "c0' = c0" "s0' = s0" using ld ld' by simp_all
  have lp: "?loop (pre @ Text a # post) (c0, s0) = (None, c, s3)"
    using lp' unfolding same order .
  have "?loop (pre @ Text a # post) (c0, s0) = ?loop post (c2, s2)"
    unfolding loop_prefix[OF before] using st by (simp add: body_text)
  then have lpp: "?loop post (c2, s2) = (None, c, s3)" using lp by simp
  have "map_of c (Text a) = map_of c2 (Text a)"
    using loop_other[OF npost, of l city_hint cache_path "(c2, s2)"] unfolding lpp by simp
  then have fin: "map_of c (Text a) = Some (NaN, NaN)" using en by simp
  have cg: "cache_get c (Text a) = (NaN, NaN)" using fin by (simp add: cache_get_def)
  have inc: "(Text a, (NaN, NaN)) \<in> set c" using map_of_SomeD[OF fin] .
  then have ne: "c \<noteq> []" by auto
  obtain rws where
    f: "files s' cache_path = Some (if c = [] then EmptyCsv else CacheCsv rws)"
    and e: "map (\<lambda>r. (csv_address r, csv_lat r, csv_lon r)) rws
              = map (\<lambda>e. (key_text l (fst e), snd e)) c"
    unfolding s' by (rule saved_rows)
  have "(\<lambda>e. (key_text l (fst e), snd e)) (Text a, (NaN, NaN))
                 \<in> set (map (\<lambda>e. (key_text l (fst e), snd e)) c)"
    unfolding set_map using inc by (rule imageI)
  then have row: "(a, NaN, NaN) \<in> set (map (\<lambda>r. (csv_address r, csv_lat r, csv_lon r)) rws)"
    unfolding e by (simp add: key_text_def)
  have f': "files s' cache_path = Some (CacheCsv rws)" using f ne by simp
  have k2: "\<exists>c s3 rs.
            ?loop (pre @ Text a # post) (c0, s0) = (None, c, s3) \<and>
            map_of c (Text a) = Some (NaN, NaN) \<and>
            files s' cache_path = Some (CacheCsv rs) \<and>
            (a, NaN, NaN) \<in> set (map (\<lambda>r. (csv_address r, csv_lat r, csv_lon r)) rs)"
    apply (rule exI[of _ c], rule exI[of _ s3], rule exI[of _ rws])
    apply (intro conjI lp fin f' row)
    done
  have k4: "map src (to_gdf df') = filter (\<lambda>r. \<not> (isna (lon r) \<or> isna (lat r))) (rows df')"
    by (rule to_gdf_src)
  have k3: "\<forall>i<length (rows df). cell address_col (rows df ! i) = Text a \<longrightarrow>
            lat (rows df' ! i) = NaN \<and> lon (rows df' ! i) = NaN \<and>
            rows df' ! i \<notin> src ` set (to_gdf df')"
  proof (intro allI impI)
    fix i assume i: "i < length (rows df)" and ai: "cell address_col (rows df ! i) = Text a"
    have la: "lat (rows df' ! i) = NaN" and lo: "lon (rows df' ! i) = NaN"
      using i ai cg by (simp_all add: rs)
    have "src ` set (to_gdf df') = set (map src (to_gdf df'))" by simp
    then have "rows df' ! i \<notin> src ` set (to_gdf df')"
      unfolding k4 using la by (simp add: isna_def)
    then show "lat (rows df' ! i) = NaN \<and> lon (rows df' ! i) = NaN \<and>
            rows df' ! i \<notin> src ` set (to_gdf df')" using la lo by simp
  qed
  have k5: "pt ` set (spatial_join l (to_gdf df') polys name_col) = set (to_gdf df')"
    by (rule spatial_join_points)
  have k6: "address_col = Adres_punktu \<and> (''lat'' \<notin> set (columns df) \<or> ''lon'' \<notin> set (columns df)) \<longrightarrow>
            main l city_hint df polys name_col cache_path out_path s
              = build_map l (spatial_join l (to_gdf df') polys name_col) polys name_col
                  (map_start l (spatial_join l (to_gdf df') polys name_col)) out_path s'"
  proof (intro impI, elim conjE)
    assume ac: "address_col = Adres_punktu"
      and nc: "''lat'' \<notin> set (columns df) \<or> ''lon'' \<notin> set (columns df)"
    show "main l city_hint df polys name_col cache_path out_path s
              = build_map l (spatial_join l (to_gdf df') polys name_col) polys name_col
                  (map_start l (spatial_join l (to_gdf df') polys name_col)) out_path s'"
      by (rule main_geocoded[OF nc run[unfolded ac]])
  qed
  show ?thesis by (intro conjI k1 k2 k3 k4 k5 k6)
qed

theorem failed_lookup_missing_and_dropped_witness:
  "\<exists>df' s' c1 s1.
     geocode_addresses sample_lib sample_df Adres_punktu ''Lodz'' ''geocode_cache.csv'' sample_sys
       = (None, df', s') \<and>
     load_cache sample_lib ''geocode_cache.csv'' sample_sys
       = (None, sample_cache, sample_sys\<lparr>io := [Read ''geocode_cache.csv'']\<rparr>) \<and>
     unique (dropna sample_lib (map (cell Adres_punktu) (rows sample_df)))
       = [Text ''ul. Piotrkowska 104 lok. 3'', Text ''Zielona 7''] @ Text ''Nieznana 1'' # [Text ''Stara 2''] \<and>
     geocode_loop sample_lib ''Lodz'' ''geocode_cache.csv''
       [Text ''ul. Piotrkowska 104 lok. 3'', Text ''Zielona 7'']
       (sample_cache, sample_sys\<lparr>io := [Read ''geocode_cache.csv'']\<rparr>) = (None, c1, s1) \<and>
     \<not> cached_ok sample_cache (Text ''Nieznana 1'') \<and>
     providers_answer sample_lib
       (normalize_address (table sample_lib) ''Nieznana 1'' @ '', '' @ ''Lodz'')
       (normalize_address (table sample_lib) (street_only ''Nieznana 1'') @ '', '' @ ''Lodz'')
       (world s1) = None \<and>
     (\<exists>rs. files s' ''geocode_cache.csv'' = Some (CacheCsv rs) \<and>
        (''Nieznana 1'', NaN, NaN) \<in> set (map (\<lambda>r. (csv_address r, csv_lat r, csv_lon r)) rs)) \<and>
     cell Adres_punktu (rows sample_df ! 2) = Text ''Nieznana 1'' \<and>
     lat (rows df' ! 2) = NaN \<and> lon (rows df' ! 2) = NaN \<and>
     rows df' ! 2 \<notin> src ` set (to_gdf df') \<and>
     main sample_lib ''Lodz'' sample_df sample_osd (\<lambda>p. Some (fst p))
         ''geocode_cache.csv'' ''mapa_v6.html'' sample_sys
       = build_map sample_lib (spatial_join sample_lib (to_gdf df') sample_osd (\<lambda>p. Some (fst p)))
           sample_osd (\<lambda>p. Some (fst p))
           (map_start sample_lib (spatial_join sample_lib (to_gdf df') sample_osd (\<lambda>p. Some (fst p))))
           ''mapa_v6.html'' s'"
proof -
  let ?s0 = "sample_sys\<lparr>io := [Read ''geocode_cache.csv'']\<rparr>"
  let ?loop = "geocode_loop sample_lib ''Lodz'' ''geocode_cache.csv''"
  let ?p1 = "[Text ''ul. Piotrkowska 104 lok. 3'', Text ''Zielona 7'']"
  from sample_returns obtain df' s' where
    run: "geocode_addresses sample_lib sample_df Adres_punktu ''Lodz'' ''geocode_cache.csv'' sample_sys
       = (None, df', s')" by (elim exE)
  have u: "unique (dropna sample_lib (map (cell Adres_punktu) (rows sample_df)))
     = ?p1 @ Text ''Nieznana 1'' # [Text ''Stara 2'']"
    using sample_addresses by simp
  have "fst (?loop ?p1 (sample_cache, ?s0)) = None" by (rule loop_returns) simp
  then obtain c1 s1 where b1: "?loop ?p1 (sample_cache, ?s0) = (None, c1, s1)"
    by (cases "?loop ?p1 (sample_cache, ?s0)") auto
  have un: "\<not> cached_ok sample_cache (Text ''Nieznana 1'')"
    by (simp add: cached_ok_def sample_cache_def isna_def)
  have q1: "normalize_address (table sample_lib) ''Nieznana 1'' @ '', '' @ ''Lodz'' = ''Nieznana 1, Lodz''"
    and q2: "normalize_address (table sample_lib) (street_only ''Nieznana 1'') @ '', '' @ ''Lodz''
              = ''Nieznana, Lodz''"
    by code_simp+
  have fl: "providers_answer sample_lib
       (normalize_address (table sample_lib) ''Nieznana 1'' @ '', '' @ ''Lodz'')
       (normalize_address (table sample_lib) (street_only ''Nieznana 1'') @ '', '' @ ''Lodz'')
       (world s1) = None"
    unfolding q1 q2 by (simp add: providers_answer_def sample_lib_def sample_geocoder_def)
  have i: "2 < length (rows sample_df)" by (simp add: sample_df_def)
  have ai: "cell Adres_punktu (rows sample_df ! 2) = Text ''Nieznana 1''"
    by (simp add: sample_df_def sample_row_def)
  have nc: "Adres_punktu = Adres_punktu \<and>
            (''lat'' \<notin> set (columns sample_df) \<or> ''lon'' \<notin> set (columns sample_df))"
    by (simp add: sample_df_def)
  note t = failed_lookup_missing_and_dropped[OF run sample_load u b1 un fl,
      of sample_osd "\<lambda>p. Some (fst p)" "''mapa_v6.html''"]
  from t[THEN conjunct2, THEN conjunct1] obtain c s3 rs where
    x: "?loop (?p1 @ Text ''Nieznana 1'' # [Text ''Stara 2'']) (sample_cache, ?s0) = (None, c, s3) \<and>
        map_of c (Text ''Nieznana 1'') = Some (NaN, NaN) \<and>
        files s' ''geocode_cache.csv'' = Some (CacheCsv rs) \<and>
        (''Nieznana 1'', NaN, NaN) \<in> set (map (\<lambda>r. (csv_address r, csv_lat r, csv_lon r)) rs)"
    by (elim exE) (rule that)
  have t2: "\<exists>rs. files s' ''geocode_cache.csv'' = Some (CacheCsv rs) \<and>
        (''Nieznana 1'', NaN, NaN) \<in> set (map (\<lambda>r. (csv_address r, csv_lat r, csv_lon r)) rs)"
    by (rule exI[of _ rs]) (rule x[THEN conjunct2, THEN conjunct2])
  note t3 = t[THEN conjunct2, THEN conjunct2, THEN conjunct1, rule_format, OF i ai]
  note t6 = t[THEN conjunct2, THEN conjunct2, THEN conjunct2, THEN conjunct2, THEN conjunct2,
      rule_format, OF nc]
  show ?thesis
    apply (rule exI[of _ df'], rule exI[of _ s'], rule exI[of _ c1], rule exI[of _ s1])
    apply (intro conjI run sample_load u b1 un fl t2 ai t3[THEN conjunct1]
          t3[THEN conjunct2, THEN conjunct1] t3[THEN conjunct2, THEN conjunct2] t6)
    done
qed

section \<open>A spreadsheet that has coordinates\<close>

lemma main_not_geocoded:
  assumes "''lat'' \<in> set (columns df)" and "''lon'' \<in> set (columns df)"
  shows "main l city df osd nc p out s
           = build_map l (spatial_join l (to_gdf df) osd nc) osd nc
               (map_start l (spatial_join l (to_gdf df) osd nc)) out s"
  using assms unfolding main_def by (simp add: Let_def)

text \<open>
  C8: when the spreadsheet has both a \<open>lat\<close> and a \<open>lon\<close> column, \<open>main\<close> goes straight to
  \<open>to_gdf\<close>, the spatial join and \<open>build_map\<close>, in the state it started in: no geocoder call
  is made and the world of the services is untouched; no file is read, and no file but the
  one at the output path is written or changed, so the cache file is neither read nor
  written. The points are the rows of the spreadsheet itself in which neither coordinate
  is NaN, each with its own \<open>lon\<close> and \<open>lat\<close> as its geometry, and the spatial join keeps
  exactly these points.
\<close>

theorem existing_coordinates_skip_geocoding:
  assumes "''lat'' \<in> set (columns df)" and "''lon'' \<in> set (columns df)"
  shows "main l city df osd name_col cache_path out_path s
           = build_map l (spatial_join l (to_gdf df) osd name_col) osd name_col
               (map_start l (spatial_join l (to_gdf df) osd name_col)) out_path s \<and>
         calls (snd (main l city df osd name_col cache_path out_path s)) = calls s \<and>
         world (snd (main l city df osd name_col cache_path out_path s)) = world s \<and>
         (\<exists>evs. io (snd (main l city df osd name_col cache_path out_path s)) = io s @ evs \<and>
            set evs \<subseteq> {Write out_path}) \<and>
         (\<forall>q. q \<noteq> out_path \<longrightarrow>
            files (snd (main l city df osd name_col cache_path out_path s)) q = files s q) \<and>
         map src (to_gdf df) = filter (\<lambda>r. \<not> (isna (lon r) \<or> isna (lat r))) (rows df) \<and>
         map geometry (to_gdf df)
           = map (\<lambda>r. (lon r, lat r)) (filter (\<lambda>r. \<not> (isna (lon r) \<or> isna (lat r))) (rows df)) \<and>
         pt ` set (spatial_join l (to_gdf df) osd name_col) = set (to_gdf df)"
proof -
  let ?pts = "spatial_join l (to_gdf df) osd name_col"
  have m: "main l city df osd name_col cache_path out_path s
             = build_map l ?pts osd name_col (map_start l ?pts) out_path s"
    by (rule main_not_geocoded[OF assms])
  note lg = build_map_log[of l ?pts osd name_col "map_start l ?pts" out_path s]
  have fr: "\<forall>q. q \<noteq> out_path \<longrightarrow>
            files (snd (main l city df osd name_col cache_path out_path s)) q = files s q"
    unfolding m by (intro allI impI) (rule build_map_frame)
  have ge: "map geometry (to_gdf df)
           = map (\<lambda>r. (lon r, lat r)) (filter (\<lambda>r. \<not> (isna (lon r) \<or> isna (lat r))) (rows df))"
    by (simp add: to_gdf_filter comp_def)
  show ?thesis
    apply (intro conjI m fr to_gdf_src ge spatial_join_points)
    unfolding m
      apply (rule lg[THEN conjunct1])
     apply (rule lg[THEN conjunct2, THEN conjunct1])
    apply (rule lg[THEN conjunct2, THEN conjunct2])
    done
qed

theorem existing_coordinates_skip_geocoding_witness:
  "''lat'' \<in> set (columns sample_df_latlon) \<and> ''lon'' \<in> set (columns sample_df_latlon) \<and>
   calls (snd (main sample_lib ''Lodz'' sample_df_latlon sample_osd (\<lambda>p. Some (fst p))
                 ''geocode_cache.csv'' ''mapa_v6.html'' sample_sys)) = [] \<and>
   world (snd (main sample_lib ''Lodz'' sample_df_latlon sample_osd (\<lambda>p. Some (fst p))
                 ''geocode_cache.csv'' ''mapa_v6.html'' sample_sys)) = 0 \<and>
   ''geocode_cache.csv'' \<noteq> ''mapa_v6.html'' \<and>
   files (snd (main sample_lib ''Lodz'' sample_df_latlon sample_osd (\<lambda>p. Some (fst p))
                 ''geocode_cache.csv'' ''mapa_v6.html'' sample_sys)) ''geocode_cache.csv''
     = Some (CacheCsv sample_cache_file) \<and>
   map geometry (to_gdf sample_df_latlon) = [(Fin 19, Fin 51)]"
proof -
  have a: "''lat'' \<in> set (columns sample_df_latlon)" and b: "''lon'' \<in> set (columns sample_df_latlon)"
    by (simp_all add: sample_df_latlon_def)
  note t = existing_coordinates_skip_geocoding[OF a b, of sample_lib "''Lodz''" sample_osd
      "\<lambda>p. Some (fst p)" "''geocode_cache.csv''" "''mapa_v6.html''" sample_sys]
  have n: "''geocode_cache.csv'' \<noteq> ''mapa_v6.html''" by simp
  have c: "calls (snd (main sample_lib ''Lodz'' sample_df_latlon sample_osd (\<lambda>p. Some (fst p))
                 ''geocode_cache.csv'' ''mapa_v6.html'' sample_sys)) = []"
    using t[THEN conjunct2, THEN conjunct1] by (simp add: sample_sys_def)
  have w: "world (snd (main sample_lib ''Lodz'' sample_df_latlon sample_osd (\<lambda>p. Some (fst p))
                 ''geocode_cache.csv'' ''mapa_v6.html'' sample_sys)) = 0"
    using t[THEN conjunct2, THEN conjunct2, THEN conjunct1] by (simp add: sample_sys_def)
  have f: "files (snd (main sample_lib ''Lodz'' sample_df_latlon sample_osd (\<lambda>p. Some (fst p))
                 ''geocode_cache.csv'' ''mapa_v6.html'' sample_sys)) ''geocode_cache.csv''
     = Some (CacheCsv sample_cache_file)"
    using t[THEN conjunct2, THEN conjunct2, THEN conjunct2, THEN conjunct2, THEN conjunct1,
        rule_format, OF n]
    by (simp add: sample_sys_def)
  have g: "map geometry (to_gdf sample_df_latlon) = [(Fin 19, Fin 51)]"
    unfolding t[THEN conjunct2, THEN conjunct2, THEN conjunct2, THEN conjunct2, THEN conjunct2,
        THEN conjunct2, THEN conjunct1]
    by (simp add: sample_df_latlon_def sample_row_def isna_def)
  show ?thesis by (intro conjI a b c w n f g)
qed

section \<open>The page that is never saved\<close>

lemma contains_here: "contains pat (pat @ ys)"
proof (cases "pat @ ys")
  case Nil
  then show ?thesis by simp
next
  case (Cons a list)
  have "take (length pat) (pat @ ys) = pat" by simp
  then show ?thesis unfolding Cons by simp
qed

lemma contains_append: "contains pat ys \<Longrightarrow> contains pat (xs @ ys)"
  by (induction xs) auto

lemma first_link_split:
  "sidebar_links ! 0 = ''<link rel='stylesheet' '' @ ''href='https://''
      @ ''cdn.datatables.net/1.13.7/css/jquery.dataTables.min.css'>''"
  by (simp add: sidebar_links_def)

lemma sidebar_loads_remote: "loads_remote (build_sidebar counts_df)"
proof -
  have "build_sidebar counts_df
        = (sidebar_head @ concat (map sidebar_row counts_df) @ sidebar_foot @ ''<link rel='stylesheet' '')
           @ (''href='https://'' @ ''cdn.datatables.net/1.13.7/css/jquery.dataTables.min.css'>''
              @ nl @ sidebar_links ! 1 @ nl @ sidebar_links ! 2)"
    unfolding build_sidebar_def Let_def first_link_split by simp
  then have "contains ''href='https://'' (build_sidebar counts_df)"
    using contains_append[OF contains_here] by metis
  then show ?thesis by (simp add: loads_remote_def)
qed

lemma element_error: "element l t = Inl e \<Longrightarrow> e = TemplateSyntaxError"
  by (auto simp: element_def split: if_splits)

lemma cat_layers_element:
  "element l (''<script>var catLayers={{}};</script>'' @ x) = Inl TemplateSyntaxError"
  by (simp add: element_def empty_print_def)

text \<open>
  \<open>build_map\<close> never comes to \<open>m.save\<close>: the layers raise, or the sidebar is no template, or
  else the \<open>catLayers\<close> script of line 181 is none. The state stays as it was.
\<close>

lemma build_map_raises:
  "snd (build_map l pts osd nc st out s) = s \<and>
   fst (build_map l pts osd nc st out s)
     = (case layers l pts (map (\<lambda>h. (h, nc h)) osd) of
          Some e \<Rightarrow> Some e | None \<Rightarrow> Some TemplateSyntaxError)"
proof -
  have e2: "element l (''<script>var catLayers={{}};</script>'' @ cat_layers_js l pts)
              = Inl TemplateSyntaxError"
    by (rule cat_layers_element)
  show ?thesis
    unfolding build_map_def e2
    by (auto split: option.splits sum.splits dest: element_error)
qed

lemma main_raises: "fst (main l city df osd nc p out s) \<noteq> None"
proof (cases rule: main_cases[of df l city p s osd nc out])
  case (1 e df1 s1)
  then show ?thesis by simp
next
  case (2 df1 s1)
  then show ?thesis
    using build_map_raises[of l "spatial_join l (to_gdf df1) osd nc" osd nc
        "map_start l (spatial_join l (to_gdf df1) osd nc)" out s1]
    by (simp split: option.splits)
next
  case 3
  then show ?thesis
    using build_map_raises[of l "spatial_join l (to_gdf df) osd nc" osd nc
        "map_start l (spatial_join l (to_gdf df) osd nc)" out s]
    by (simp split: option.splits)
qed

text \<open>
  C5, the code against the claim: on both sample spreadsheets \<open>main\<close> ends with the
  \<open>TemplateSyntaxError\<close> of line 181; with coordinates in the spreadsheet the state is as
  it was before the run, and in neither run is there a file at the output path afterwards.
  The sidebar that would have been the first element of the page loads a stylesheet from
  another host.
\<close>

theorem run_raises_before_output_is_saved:
  "sample_run_latlon = (Some TemplateSyntaxError, sample_sys) \<and>
   files sample_sys ''mapa_v6.html'' = None \<and>
   fst sample_run = Some TemplateSyntaxError \<and>
   files (snd sample_run) ''mapa_v6.html'' = None \<and>
   loads_remote (build_sidebar [(''Centrum'', 1)])"
proof -
  have a: "''lat'' \<in> set (columns sample_df_latlon)" and b: "''lon'' \<in> set (columns sample_df_latlon)"
    by (simp_all add: sample_df_latlon_def)
  let ?nc = "\<lambda>p :: string \<times> real \<times> real. Some (fst p)"
  let ?p1 = "spatial_join sample_lib (to_gdf sample_df_latlon) sample_osd ?nc"
  have ly: "layers sample_lib pts polys = None" for pts polys
    by (simp add: sample_lib_def)
  have "sample_run_latlon = build_map sample_lib ?p1 sample_osd ?nc (map_start sample_lib ?p1)
                              ''mapa_v6.html'' sample_sys"
    unfolding sample_run_latlon_def by (rule main_not_geocoded[OF a b])
  then have k1: "sample_run_latlon = (Some TemplateSyntaxError, sample_sys)"
    using build_map_raises[of sample_lib ?p1 sample_osd ?nc "map_start sample_lib ?p1"
        "''mapa_v6.html''" sample_sys]
    by (simp add: ly prod_eq_iff)
  have k2: "files sample_sys ''mapa_v6.html'' = None" by (simp add: sample_sys_def)
  from sample_returns obtain df' s' where
    run: "geocode_addresses sample_lib sample_df Adres_punktu ''Lodz'' ''geocode_cache.csv'' sample_sys
       = (None, df', s')" by (elim exE)
  have nc: "''lat'' \<notin> set (columns sample_df) \<or> ''lon'' \<notin> set (columns sample_df)"
    by (simp add: sample_df_def)
  let ?p2 = "spatial_join sample_lib (to_gdf df') sample_osd ?nc"
  have m: "sample_run = build_map sample_lib ?p2 sample_osd ?nc (map_start sample_lib ?p2)
                          ''mapa_v6.html'' s'"
    unfolding sample_run_def by (rule main_geocoded[OF nc run])
  note r = build_map_raises[of sample_lib ?p2 sample_osd ?nc "map_start sample_lib ?p2"
        "''mapa_v6.html''" s']
  have k3: "fst sample_run = Some TemplateSyntaxError"
    unfolding m using r by (simp add: ly)
  have n: "''mapa_v6.html'' \<noteq> ''geocode_cache.csv''" by simp
  have "snd sample_run = s'" unfolding m using r by simp
  then have k4: "files (snd sample_run) ''mapa_v6.html'' = None"
    using geocode_addresses_frame[OF n, of sample_lib sample_df Adres_punktu "''Lodz''" sample_sys]
      run k2 by simp
  show ?thesis by (intro conjI k1 k2 k3 k4 sidebar_loads_remote)
qed

section \<open>The keys of the cache\<close>

text \<open>
  The loop and the saves keep a \<open>str\<close> address as it is: the step for the address \<open>a\<close>
  adds no key but \<open>a\<close> itself, not its normalized form, and a save writes the text of
  every key.
\<close>

lemma save_cache_addresses:
  "c \<noteq> [] \<Longrightarrow>
     \<exists>rs. files (save_cache l c p s) p = Some (CacheCsv rs) \<and>
          map csv_address rs = map (\<lambda>e. key_text l (fst e)) c"
proof -
  assume ne: "c \<noteq> []"
  obtain rs where f: "files (save_cache l c p s) p = Some (if c = [] then EmptyCsv else CacheCsv rs)"
    and e: "map (\<lambda>r. (csv_address r, csv_lat r, csv_lon r)) rs = map (\<lambda>e. (key_text l (fst e), snd e)) c"
    by (rule saved_rows)
  have "map fst (map (\<lambda>r. (csv_address r, csv_lat r, csv_lon r)) rs)
          = map fst (map (\<lambda>e. (key_text l (fst e), snd e)) c)"
    unfolding e by (rule refl)
  then have "map csv_address rs = map (\<lambda>e. key_text l (fst e)) c" by (simp add: comp_def)
  then show ?thesis using f ne by simp
qed


section \<open>Normalizing an address twice\<close>


subsection \<open>Strip\<close>

lemma strip_strip: "strip (strip x) = strip x"
proof -
  define y where "y = dropWhile is_space x"
  define z where "z = dropWhile is_space (rev y)"
  have sx: "strip x = rev z" by (simp add: strip_def y_def z_def)
  have "dropWhile is_space (rev z) = rev z"
  proof (cases "z = []")
    case True
    then show ?thesis by simp
  next
    case False
    have "rev y = takeWhile is_space (rev y) @ z" by (simp add: z_def)
    then have "last z = last (rev y)" using False by (metis last_appendR)
    moreover have "rev y \<noteq> []" using False z_def by auto
    ultimately have "last z = hd y" by (simp add: last_rev)
    moreover have "y \<noteq> []" using \<open>rev y \<noteq> []\<close> by simp
    then have "\<not> is_space (hd y)" unfolding y_def by (rule hd_dropWhile)
    ultimately have "\<not> is_space (hd (rev z))" using False by (simp add: hd_rev)
    then show ?thesis by (simp add: dropWhile_eq_self_iff)
  qed
  moreover have "dropWhile is_space z = z" by (simp add: z_def)
  ultimately have "strip (rev z) = rev z" by (simp add: strip_def)
  then show ?thesis by (simp add: sx)
qed

lemma length_strip: "length (strip x) \<le> length x"
proof -
  have "length (dropWhile is_space (rev (dropWhile is_space x))) \<le> length (rev (dropWhile is_space x))"
    by (rule length_dropWhile_le)
  also have "\<dots> \<le> length x" by (simp add: length_dropWhile_le)
  finally show ?thesis by (simp add: strip_def)
qed

lemma set_strip: "set (strip x) \<subseteq> set x"
proof -
  have "set (dropWhile is_space (rev (dropWhile is_space x))) \<subseteq> set (rev (dropWhile is_space x))"
    by (rule set_dropWhileD[THEN subsetI]) 
  also have "\<dots> \<subseteq> set x" using set_dropWhileD[of _ is_space x] by auto
  finally show ?thesis by (simp add: strip_def)
qed

lemma strip_split: "\<exists>pre post. x = pre @ strip x @ post"
proof -
  define y where "y = dropWhile is_space x"
  have 1: "x = takeWhile is_space x @ y" by (simp add: y_def)
  have "rev y = takeWhile is_space (rev y) @ dropWhile is_space (rev y)" by simp
  then have "y = rev (dropWhile is_space (rev y)) @ rev (takeWhile is_space (rev y))"
    by (metis rev_append rev_rev_ident)
  then have "y = strip x @ rev (takeWhile is_space (rev y))" by (simp add: strip_def y_def)
  with 1 show ?thesis by metis
qed


subsection \<open>Substitution\<close>

lemma set_re_sub: "set (re_sub m repl pw x) \<subseteq> set x \<union> set repl"
proof (induction m repl pw x rule: re_sub.induct)
  case (1 m repl pw)
  then show ?case by simp
next
  case (2 m repl pw c cs)
  show ?case
  proof (cases "m pw (c # cs)")
    case None
    then show ?thesis using 2(1) by auto
  next
    case (Some k)
    show ?thesis
    proof (cases k)
      case 0
      then show ?thesis using Some 2(2) by auto
    next
      case (Suc n)
      show ?thesis
      proof (cases "n \<le> length cs")
        case True
        have "set (drop n cs) \<subseteq> set cs" by (rule set_drop_subset)
        then show ?thesis using Some Suc True 2(3)[OF Some Suc True] by auto
      next
        case False
        then show ?thesis using Some Suc 2(4)[OF Some Suc] by auto
      qed
    qed
  qed
qed

lemma length_re_sub_le: "length repl \<le> 1 \<Longrightarrow> length (re_sub m repl pw x) \<le> length x"
proof (induction m repl pw x rule: re_sub.induct)
  case (1 m repl pw)
  then show ?case by simp
next
  case (2 m repl pw c cs)
  show ?case
  proof (cases "m pw (c # cs)")
    case None
    then show ?thesis using 2(1) 2(5) by auto
  next
    case (Some k)
    show ?thesis
    proof (cases k)
      case 0
      then show ?thesis using Some 2(2) 2(5) by auto
    next
      case (Suc n)
      show ?thesis
      proof (cases "n \<le> length cs")
        case True
        then show ?thesis using Some Suc 2(3)[OF Some Suc True] 2(5) by auto
      next
        case False
        then show ?thesis using Some Suc 2(4)[OF Some Suc] 2(5) by auto
      qed
    qed
  qed
qed

lemma re_sub_no_match: "\<not> has_match m pw x \<Longrightarrow> re_sub m repl pw x = x"
  by (induction x arbitrary: pw) auto

lemma re_sub_shrinks:
  assumes sound: "\<And>pw s k. m pw s = Some k \<Longrightarrow> 0 < k \<and> k \<le> length s"
  shows "has_match m pw x \<Longrightarrow> length (re_sub m [] pw x) < length x"
proof (induction x arbitrary: pw)
  case Nil
  then show ?case by simp
next
  case (Cons c cs)
  show ?case
  proof (cases "m pw (c # cs)")
    case None
    then have "has_match m (is_word c) cs" using Cons.prems by simp
    then show ?thesis using None Cons.IH by auto
  next
    case (Some k)
    from sound[OF Some] obtain n where k: "k = Suc n" and n: "n \<le> length cs"
      by (cases k) auto
    have "length (re_sub m [] (is_word ((c # cs) ! n)) (drop n cs)) \<le> length (drop n cs)"
      by (rule length_re_sub_le) simp
    then show ?thesis using Some k n by auto
  qed
qed

lemma ci_prefix_length: "ci_prefix kw s \<Longrightarrow> length kw \<le> length s"
  by (induction kw s rule: ci_prefix.induct) auto

lemma m_ul_sound: "m_ul pw s = Some k \<Longrightarrow> 0 < k \<and> k \<le> length s"
proof -
  assume a: "m_ul pw s = Some k"
  then have p: "ci_prefix ''ul'' s" by (auto simp: m_ul_def split: if_splits)
  from ci_prefix_length[OF p] have l: "2 \<le> length s" by simp
  show ?thesis
  proof (cases "drop 2 s")
    case Nil
    then show ?thesis using a l by (auto simp: m_ul_def split: if_splits)
  next
    case (Cons d ds)
    then have "3 \<le> length s" by (metis drop_eq_Nil list.distinct(1) not_less_eq_eq numeral_2_eq_2 numeral_3_eq_3 linorder_not_le Suc_leI)
    then show ?thesis using a Cons by (auto simp: m_ul_def split: if_splits)
  qed
qed


lemma run_lengths: "length (takeWhile P t) + length (takeWhile Q (dropWhile P t)) \<le> length t"
proof -
  have "length (takeWhile Q (dropWhile P t)) \<le> length (dropWhile P t)"
    by (rule length_takeWhile_le)
  moreover have "length (takeWhile P t) + length (dropWhile P t) = length t"
    by (metis length_append takeWhile_dropWhile_id)
  ultimately show ?thesis by linarith
qed

lemma m_kw_sound:
  assumes "m_kw kw pw s = Some k" and "kw \<noteq> []"
  shows "0 < k \<and> k \<le> length s"
proof -
  from assms(1) have p: "ci_prefix kw s" by (auto simp: m_kw_def split: if_splits)
  have ls: "length (drop (length kw) s) + length kw = length s"
    using ci_prefix_length[OF p] by simp
  have pos: "0 < length kw" using assms(2) by simp
  have a: "\<And>t. length (takeWhile is_space t)
              + length (takeWhile (\<lambda>c. \<not> is_space c) (dropWhile is_space t)) \<le> length t"
    by (rule run_lengths)
  have b: "\<And>t. length (takeWhile (\<lambda>c. \<not> is_space c) t) \<le> length t"
    by (rule length_takeWhile_le)
  show ?thesis
  proof (cases "drop (length kw) s")
    case Nil
    then show ?thesis using assms(1) by (simp add: m_kw_def Let_def split: if_splits)
  next
    case (Cons c r')
    then have l: "length s = length kw + Suc (length r')" using ls by simp
    show ?thesis
    proof (cases "c = CHR ''.''")
      case True
      show ?thesis
      proof (cases "takeWhile (\<lambda>c. \<not> is_space c) (dropWhile is_space r') = []")
        case e: True
        have "length (takeWhile (\<lambda>c. \<not> is_space c) (c # r')) \<le> Suc (length r')"
          using b[of "c # r'"] by simp
        moreover have "\<not> is_space CHR ''.''" by (simp add: is_space_def code_def)
        ultimately show ?thesis using assms(1) Cons True e l pos
          by (simp add: m_kw_def Let_def split: if_splits)
      next
        case ne: False
        then show ?thesis using assms(1) Cons True l a[of r']
          by (simp add: m_kw_def Let_def split: if_splits)
      qed
    next
      case False
      show ?thesis
      proof (cases "takeWhile (\<lambda>c. \<not> is_space c) (dropWhile is_space (c # r')) = []")
        case e: True
        then show ?thesis using assms(1) Cons False
          by (simp add: m_kw_def Let_def split: if_splits)
      next
        case ne: False
        have "length (takeWhile is_space (c # r'))
              + length (takeWhile (\<lambda>c. \<not> is_space c) (dropWhile is_space (c # r'))) \<le> Suc (length r')"
          using a[of "c # r'"] by simp
        then show ?thesis using assms(1) Cons False ne l pos
          by (simp add: m_kw_def Let_def split: if_splits)
      qed
    qed
  qed
qed

subsection \<open>Single blanks\<close>

lemma single_spaced_tl: "single_spaced (c # cs) \<Longrightarrow> single_spaced cs"
  by (cases cs) (auto split: if_splits)

lemma single_spaced_suffix: "single_spaced (xs @ ys) \<Longrightarrow> single_spaced ys"
  by (induction xs) (auto dest: single_spaced_tl)

lemma single_spaced_prefix: "single_spaced (xs @ ys) \<Longrightarrow> single_spaced xs"
proof (induction xs rule: single_spaced.induct)
  case 1
  then show ?case by simp
next
  case (2 c)
  then show ?case by (cases ys) (auto split: if_splits)
next
  case (3 c d r)
  then show ?case by (auto split: if_splits)
qed

lemma single_spaced_strip: "single_spaced x \<Longrightarrow> single_spaced (strip x)"
  using strip_split[of x] single_spaced_suffix single_spaced_prefix by metis

lemma single_spaced_Cons:
  "single_spaced (c # x) = ((if is_space c then c = CHR '' '' \<and> (x = [] \<or> \<not> is_space (hd x)) else True)
      \<and> single_spaced x)"
  by (cases x) auto

lemma re_sub_ws_head: "\<not> is_space d \<Longrightarrow> re_sub m_ws repl pw (d # r) = d # re_sub m_ws repl (is_word d) r"
  by (simp add: m_ws_def)

lemma single_spaced_collapse: "single_spaced (re_sub m_ws '' '' pw x)"
proof (induction m_ws "'' ''" pw x rule: re_sub.induct)
  case (1 pw)
  then show ?case by simp
next
  case (2 pw c cs)
  show ?case
  proof (cases "is_space c")
    case False
    then have none: "m_ws pw (c # cs) = None" by (simp add: m_ws_def)
    have "re_sub m_ws '' '' pw (c # cs) = c # re_sub m_ws '' '' (is_word c) cs"
      using False by (rule re_sub_ws_head)
    then show ?thesis using False 2(1)[OF none] by (simp add: single_spaced_Cons del: re_sub.simps)
  next
    case True
    define k where "k = length (takeWhile is_space cs)"
    have m: "m_ws pw (c # cs) = Some (Suc k)" using True by (simp add: m_ws_def k_def)
    have kl: "k \<le> length cs" unfolding k_def by (rule length_takeWhile_le)
    have dr: "drop k cs = dropWhile is_space cs" unfolding k_def by (rule dropWhile_eq_drop[symmetric])
    have r: "re_sub m_ws '' '' pw (c # cs)
               = CHR '' '' # re_sub m_ws '' '' (is_word ((c # cs) ! k)) (dropWhile is_space cs)"
      using m kl dr by simp
    have ih: "single_spaced (re_sub m_ws '' '' (is_word ((c # cs) ! k)) (dropWhile is_space cs))"
      using 2(3)[OF m refl kl] dr by simp
    show ?thesis
    proof (cases "dropWhile is_space cs")
      case Nil
      have "re_sub m_ws '' '' pw (c # cs) = '' ''" unfolding r Nil by simp
      then show ?thesis by (simp add: is_space_def code_def)
    next
      case (Cons d r')
      then have nd: "\<not> is_space d" by (metis hd_dropWhile list.sel(1) list.distinct(1))
      have "re_sub m_ws '' '' (is_word ((c # cs) ! k)) (d # r')
              = d # re_sub m_ws '' '' (is_word d) r'" using nd by (rule re_sub_ws_head)
      then show ?thesis using ih Cons nd unfolding r by (simp add: single_spaced_Cons del: re_sub.simps)
    qed
  qed
qed

lemma collapse_single_spaced: "single_spaced x \<Longrightarrow> re_sub m_ws '' '' pw x = x"
proof (induction x arbitrary: pw)
  case Nil
  then show ?case by simp
next
  case (Cons c cs)
  have ss: "single_spaced cs" using Cons.prems by (rule single_spaced_tl)
  show ?case
  proof (cases "is_space c")
    case False
    then show ?thesis using Cons.IH[OF ss] by (simp add: re_sub_ws_head del: re_sub.simps)
  next
    case True
    then have c: "c = CHR '' ''" and nx: "cs = [] \<or> \<not> is_space (hd cs)"
      using Cons.prems by (simp_all add: single_spaced_Cons)
    have "takeWhile is_space cs = []" using nx by (cases cs) auto
    then have "m_ws pw (c # cs) = Some (Suc 0)" using True by (simp add: m_ws_def)
    then show ?thesis using Cons.IH[OF ss] c by simp
  qed
qed

lemma unidecode_ascii: "ascii_only x \<Longrightarrow> unidecode tbl x = x"
  by (induction x) (auto simp: unidecode_def ascii_only_def)


subsection \<open>Normalizing twice\<close>

lemma ascii_strip: "ascii_only x \<Longrightarrow> ascii_only (strip x)"
  using set_strip[of x] by (auto simp: ascii_only_def list_all_iff)

lemma ascii_re_sub: "ascii_only x \<Longrightarrow> ascii_only repl \<Longrightarrow> ascii_only (re_sub m repl pw x)"
  using set_re_sub[of m repl pw x] by (auto simp: ascii_only_def list_all_iff)

lemma ascii_blank: "ascii_only '' ''" and ascii_empty: "ascii_only []"
  by (simp_all add: ascii_only_def is_ascii_def code_def)

lemma normalize_ascii:
  assumes "ascii_only s"
  shows "normalize_address tbl s
           = strip (re_sub m_ws '' '' False (re_sub (m_kw ''paw'') [] False
               (re_sub (m_kw ''lok'') [] False (re_sub m_ul [] False (strip s)))))"
proof -
  have "ascii_only (re_sub m_ws '' '' False (re_sub (m_kw ''paw'') [] False
               (re_sub (m_kw ''lok'') [] False (re_sub m_ul [] False (strip s)))))"
    by (intro ascii_re_sub ascii_strip assms ascii_blank ascii_empty)
  then show ?thesis by (simp add: normalize_address_def Let_def unidecode_ascii)
qed

lemma normalized_shape:
  assumes "ascii_only s"
  shows "ascii_only (normalize_address tbl s) \<and> single_spaced (normalize_address tbl s) \<and>
         strip (normalize_address tbl s) = normalize_address tbl s"
  unfolding normalize_ascii[OF assms]
  by (intro conjI ascii_strip ascii_re_sub assms ascii_blank ascii_empty single_spaced_strip
        single_spaced_collapse strip_strip)

lemma normalize_fixed:
  assumes "ascii_only u" and "single_spaced u" and "strip u = u" and "\<not> removal_matches u"
  shows "normalize_address tbl u = u"
proof -
  have 1: "re_sub m_ul [] False u = u"
    and 2: "re_sub (m_kw ''lok'') [] False u = u"
    and 3: "re_sub (m_kw ''paw'') [] False u = u"
    using assms(4) by (simp_all add: removal_matches_def re_sub_no_match)
  show ?thesis
    by (simp add: normalize_ascii[OF assms(1)] assms(3) 1 2 3 collapse_single_spaced[OF assms(2)])
qed

lemma normalize_shrinks:
  assumes "ascii_only u" and "strip u = u" and "removal_matches u"
  shows "length (normalize_address tbl u) < length u"
proof -
  let ?a1 = "re_sub m_ul [] False u"
  let ?a2 = "re_sub (m_kw ''lok'') [] False ?a1"
  let ?a3 = "re_sub (m_kw ''paw'') [] False ?a2"
  let ?a4 = "re_sub m_ws '' '' False ?a3"
  have n: "normalize_address tbl u = strip ?a4"
    using normalize_ascii[OF assms(1), of tbl] assms(2) by simp
  have l4: "length (strip ?a4) \<le> length ?a3"
    using length_strip[of ?a4] length_re_sub_le[of "'' ''" m_ws False ?a3] by simp
  have l3: "length ?a3 \<le> length ?a2" by (rule length_re_sub_le) simp
  have l2: "length ?a2 \<le> length ?a1" by (rule length_re_sub_le) simp
  have l1: "length ?a1 \<le> length u" by (rule length_re_sub_le) simp
  have kw: "\<And>kw pw s k. kw \<noteq> [] \<Longrightarrow> m_kw kw pw s = Some k \<Longrightarrow> 0 < k \<and> k \<le> length s"
    using m_kw_sound by blast
  consider (ul) "has_match m_ul False u"
    | (lok) "\<not> has_match m_ul False u" "has_match (m_kw ''lok'') False u"
    | (paw) "\<not> has_match m_ul False u" "\<not> has_match (m_kw ''lok'') False u"
            "has_match (m_kw ''paw'') False u"
    using assms(3) unfolding removal_matches_def by blast
  then have "length ?a3 < length u"
  proof cases
    case ul
    have "length ?a1 < length u" using m_ul_sound ul by (rule re_sub_shrinks)
    then show ?thesis using l2 l3 by linarith
  next
    case lok
    have e1: "?a1 = u" using lok(1) by (rule re_sub_no_match)
    have "length (re_sub (m_kw ''lok'') [] False u) < length u"
      using kw[of "''lok''"] lok(2) by (intro re_sub_shrinks) auto
    then show ?thesis using l3 unfolding e1 by linarith
  next
    case paw
    have e1: "?a1 = u" using paw(1) by (rule re_sub_no_match)
    have e2: "re_sub (m_kw ''lok'') [] False u = u" using paw(2) by (rule re_sub_no_match)
    have "length (re_sub (m_kw ''paw'') [] False u) < length u"
      using kw[of "''paw''"] paw(3) by (intro re_sub_shrinks) auto
    then show ?thesis unfolding e1 e2 by simp
  qed
  then show ?thesis using l4 unfolding n by linarith
qed

text \<open>
  C10, as amended: for an address of ASCII characters, normalizing the normalized address
  gives the same string exactly when none of the three removal patterns (\<open>ul\<close>, \<open>lok\<close>,
  \<open>paw\<close>) matches in the normalized address.
\<close>

theorem normalize_address_idempotent_iff:
  assumes "ascii_only s"
  shows "(normalize_address tbl (normalize_address tbl s) = normalize_address tbl s)
           = (\<not> removal_matches (normalize_address tbl s))"
proof (cases "removal_matches (normalize_address tbl s)")
  case True
  from normalized_shape[OF assms, of tbl] have
    "length (normalize_address tbl (normalize_address tbl s)) < length (normalize_address tbl s)"
    using True by (intro normalize_shrinks) simp_all
  then show ?thesis using True by auto
next
  case False
  from normalized_shape[OF assms, of tbl] have
    "normalize_address tbl (normalize_address tbl s) = normalize_address tbl s"
    using False by (intro normalize_fixed) simp_all
  then show ?thesis using False by simp
qed

theorem normalize_address_idempotent_iff_witness:
  "ascii_only ''ul. Piotrkowska 104 lok. 3'' \<and>
   normalize_address (table sample_lib) ''ul. Piotrkowska 104 lok. 3'' = ''Piotrkowska 104'' \<and>
   \<not> removal_matches ''Piotrkowska 104'' \<and>
   normalize_address (table sample_lib) ''Piotrkowska 104'' = ''Piotrkowska 104'' \<and>
   ascii_only ''ulul'' \<and>
   normalize_address (table sample_lib) ''ulul'' = ''ul'' \<and>
   removal_matches ''ul'' \<and>
   normalize_address (table sample_lib) ''ul'' \<noteq> ''ul''"
proof -
  have a1: "ascii_only ''ul. Piotrkowska 104 lok. 3''" by code_simp
  have n1: "normalize_address (table sample_lib) ''ul. Piotrkowska 104 lok. 3'' = ''Piotrkowska 104''"
    by code_simp
  have r1: "\<not> removal_matches ''Piotrkowska 104''" by code_simp
  have a2: "ascii_only ''ulul''" by code_simp
  have n2: "normalize_address (table sample_lib) ''ulul'' = ''ul''" by code_simp
  have r2: "removal_matches ''ul''" by code_simp
  from normalize_address_idempotent_iff[OF a1, of "table sample_lib"] r1
  have f1: "normalize_address (table sample_lib) ''Piotrkowska 104'' = ''Piotrkowska 104''"
    unfolding n1 by simp
  from normalize_address_idempotent_iff[OF a2, of "table sample_lib"] r2
  have f2: "normalize_address (table sample_lib) ''ul'' \<noteq> ''ul''"
    unfolding n2 by simp
  show ?thesis by (intro conjI a1 n1 r1 f1 a2 n2 r2 f2)
qed

text \<open>
  C10 as stated fails: \<open>ulul\<close> is normalized to \<open>ul\<close> (the second \<open>ul\<close> does not start at a
  word boundary), and \<open>ul\<close> is normalized to the empty string.
\<close>

theorem normalize_address_idempotent_counterexample:
  "normalize_address (table sample_lib) (normalize_address (table sample_lib) ''ulul'')
     \<noteq> normalize_address (table sample_lib) ''ulul''"
  by code_simp

end
